(* ===== verification/Prelude.thy ===== *)
theory Prelude
  imports Main "HOL-Library.Word"
begin

text \<open>
  Shared vocabulary of the development: the machine integers of the Rust sources, the
  errors and panics of the code as values, the fallible computations built from them,
  in-place updates of vectors, and the generic lemmas on lists, bytes and results that
  the components use.
\<close>

unbundle bit_operations_syntax

section \<open>Types\<close>

type_synonym u8 = "8 word"
type_synonym u16 = "16 word"
type_synonym u64 = "64 word"
type_synonym bytes = "u8 list"

text \<open>Raw file descriptors and points in time (nanoseconds since process start).\<close>

type_synonym raw_fd = int
type_synonym instant = nat
type_synonym duration = nat

section \<open>Errors, panics and results\<close>

text \<open>
  The \<open>io::ErrorKind\<close>s the sources build themselves, and \<open>OtherIo\<close> for errors the
  operating system reports. A Rust panic (\<open>expect\<close>, \<open>unreachable!\<close>, an index out of
  range) ends the task that runs the code; it is the second constructor of \<open>err\<close>. The third
  says that a loop over code outside the repository used up its fuel; the theorems show when
  that cannot happen.
\<close>

datatype io_kind =
  InvalidData | UnexpectedEof | ConnectionAborted | QuotaExceeded | OtherIo

datatype err = IoError io_kind string | Panicked string | Diverged

type_synonym 'a res = "err + 'a"

text \<open>An orderly result: a value or an \<open>io::Error\<close>.\<close>

fun orderly :: "'a res \<Rightarrow> bool" where
  "orderly (Inl (IoError k m)) = True"
| "orderly (Inl e) = False"
| "orderly (Inr x) = True"

text \<open>Sequencing of fallible code: the \<open>?\<close> operator, and unwinding of a panic.\<close>

definition rbind :: "'a res \<Rightarrow> ('a \<Rightarrow> 'b res) \<Rightarrow> 'b res" where
  "rbind m f = (case m of Inl e \<Rightarrow> Inl e | Inr x \<Rightarrow> f x)"

text \<open>\<open>Option::ok_or_else\<close> and \<open>Option::expect\<close>.\<close>

definition ok_or :: "err \<Rightarrow> 'a option \<Rightarrow> 'a res" where
  "ok_or e x = (case x of None \<Rightarrow> Inl e | Some v \<Rightarrow> Inr v)"

text \<open>A loop over a list whose body may fail: it stops at the first error.\<close>

fun rfold :: "('a \<Rightarrow> 's \<Rightarrow> 's res) \<Rightarrow> 'a list \<Rightarrow> 's \<Rightarrow> 's res" where
  "rfold f [] s = Inr s"
| "rfold f (x # xs) s = rbind (f x s) (rfold f xs)"

text \<open>\<open>iter().map(f).collect()\<close> where \<open>f\<close> may panic.\<close>

fun rmap :: "('a \<Rightarrow> 'b res) \<Rightarrow> 'a list \<Rightarrow> 'b list res" where
  "rmap f [] = Inr []"
| "rmap f (x # xs) = rbind (f x) (\<lambda>y. rbind (rmap f xs) (\<lambda>ys. Inr (y # ys)))"

section \<open>Vectors\<close>

text \<open>\<open>Vec::get\<close>.\<close>

definition vec_get :: "'a list \<Rightarrow> nat \<Rightarrow> 'a option" where
  "vec_get v i = (if i < length v then Some (v ! i) else None)"

text \<open>
  \<open>v.iter_mut().find(p)\<close> followed by a write through the reference found: the vector
  with its first match changed, or \<open>None\<close> when nothing matches.
\<close>

fun update_first :: "('a \<Rightarrow> bool) \<Rightarrow> ('a \<Rightarrow> 'a) \<Rightarrow> 'a list \<Rightarrow> 'a list option" where
  "update_first p f [] = None"
| "update_first p f (x # xs) =
     (if p x then Some (f x # xs) else map_option ((#) x) (update_first p f xs))"

section \<open>Lemma collections\<close>

named_theorems res_simps \<open>equations of the result combinators\<close>
named_theorems inv_intros \<open>preservation of the components' invariants\<close>

lemma rbind_simps [simp, res_simps]:
  "rbind (Inl e) f = Inl e"
  "rbind (Inr x) f = f x"
  by (simp_all add: rbind_def)

lemma ok_or_simps [simp, res_simps]:
  "ok_or e None = Inl e"
  "ok_or e (Some v) = Inr v"
  by (simp_all add: ok_or_def)

lemma rbind_eq_Inr: "rbind m f = Inr y \<longleftrightarrow> (\<exists>x. m = Inr x \<and> f x = Inr y)"
  by (cases m) auto

lemma rbind_eq_Inl: "rbind m f = Inl e \<longleftrightarrow> m = Inl e \<or> (\<exists>x. m = Inr x \<and> f x = Inl e)"
  by (cases m) auto

lemma ok_or_eq_Inr [simp]: "ok_or e x = Inr v \<longleftrightarrow> x = Some v"
  by (cases x) auto

text \<open>A map that succeeds at every element is the plain map of its values.\<close>

lemma rmap_Inr: "(\<And>x. x \<in> set xs \<Longrightarrow> f x = Inr (g x)) \<Longrightarrow> rmap f xs = Inr (map g xs)"
  by (induction xs) auto

text \<open>An invariant of the body is an invariant of the loop, which then never fails.\<close>

lemma rfold_invariant:
  assumes "P s" and "\<And>x s. x \<in> set xs \<Longrightarrow> P s \<Longrightarrow> \<exists>s'. f x s = Inr s' \<and> P s'"
  shows "\<exists>s'. rfold f xs s = Inr s' \<and> P s'"
  using assms
proof (induction xs arbitrary: s)
  case Nil
  then show ?case by simp
next
  case (Cons x xs)
  from Cons.prems obtain s1 where s1: "f x s = Inr s1" "P s1"
    by (meson list.set_intros(1))
  have "\<exists>s'. rfold f xs s1 = Inr s' \<and> P s'"
    by (rule Cons.IH) (use s1 Cons.prems in auto)
  with s1 show ?case by simp
qed

section \<open>Vectors as ordered tables\<close>

lemma update_first_None: "update_first p f xs = None \<longleftrightarrow> (\<forall>x \<in> set xs. \<not> p x)"
  by (induction xs) auto

lemma update_first_length: "update_first p f xs = Some ys \<Longrightarrow> length ys = length xs"
  by (induction xs arbitrary: ys) (auto split: if_splits)

text \<open>With distinct keys the first match is the only one.\<close>

lemma update_first_distinct:
  assumes "distinct (map k xs)" and "\<exists>x \<in> set xs. k x = a"
  shows "update_first (\<lambda>x. k x = a) f xs = Some (map (\<lambda>x. if k x = a then f x else x) xs)"
  using assms
proof (induction xs)
  case Nil
  then show ?case by simp
next
  case (Cons x xs)
  show ?case
  proof (cases "k x = a")
    case True
    with Cons.prems have "a \<notin> k ` set xs" by simp
    then have "\<forall>y \<in> set xs. k y \<noteq> a" by blast
    then have "map (\<lambda>x. if k x = a then f x else x) xs = xs"
      by (induction xs) auto
    with True show ?thesis by simp
  next
    case False
    with Cons show ?thesis by auto
  qed
qed

lemma concat_map_Nil [simp]: "concat (map (\<lambda>x. []) xs) = []"
  by (induction xs) auto

section \<open>Bytes\<close>

lemma bit_8_u8: "bit (8 :: u8) n \<longleftrightarrow> n = 3"
proof -
  have "(8 :: u8) = push_bit 3 1" by simp
  then show ?thesis by (simp only: bit_push_bit_iff) (auto simp: bit_1_iff)
qed

lemma bit_2_u8: "bit (2 :: u8) n \<longleftrightarrow> n = 1"
proof -
  have "(2 :: u8) = push_bit 1 1" by simp
  then show ?thesis by (simp only: bit_push_bit_iff) (auto simp: bit_1_iff)
qed

lemma bit_set_dup: "bit (b OR 8 :: u8) n \<longleftrightarrow> bit b n \<or> n = 3"
  by (simp only: bit_or_iff bit_8_u8)

lemma bit_clear_1: "bit (b AND NOT 2 :: u8) n \<longleftrightarrow> bit b n \<and> n \<noteq> 1"
proof -
  have "bit b n \<Longrightarrow> n < 8" by (auto dest: bit_imp_le_length)
  then show ?thesis by (auto simp only: bit_and_iff bit_not_iff bit_2_u8 possible_bit_word) simp_all
qed

lemma bit_small:
  assumes "unat (x :: u8) < 2 ^ k" and "bit x n"
  shows "n < k"
proof (rule ccontr)
  assume "\<not> n < k"
  then have "(2::nat) ^ k \<le> 2 ^ n" by simp
  with assms(1) have "unat x < 2 ^ n" by linarith
  then have "\<not> bit (unat x) n" by (simp add: bit_nat_def)
  moreover have "bit (unat x) n" using assms(2) by (simp add: bit_unsigned_iff)
  ultimately show False by simp
qed

end
