(* ===== verification/Codec.thy ===== *)
theory Codec
  imports Prelude
begin

text \<open>
  The MQTT packets as the sources see them, and the interface of the crate
  \<open>rmqtt_codec\<close> they are written against. The crate is not part of the repository, so its
  functions are the fields of a record \<open>rmqtt\<close> that every definition using them takes as
  an argument, and the packet types keep the constructors and fields the sources name.
  Everything the sources never look at (payloads, topics, properties, the packets no
  pattern mentions) is a value of the type parameter \<open>'x\<close>; \<open>'c\<close> is the state of a
  codec object. The laws the code relies on are predicates over the record, and a theorem
  that needs one has it as a hypothesis.
\<close>

section \<open>Packet types\<close>

datatype protocol_version = MQTT3 | MQTT5

datatype qos = AtMostOnce | AtLeastOnce | ExactlyOnce

text \<open>
  Packet identifiers are \<open>NonZeroU16\<close>; they are compared and stored, never computed with,
  so \<open>u16\<close> carries them. The codec yields \<open>None\<close> for a PUBLISH without identifier.
\<close>

record 'x publish =
  pub_qos :: qos
  pub_packet_id :: "u16 option"
  pub_rest :: 'x

record 'x ack5 =
  ack_packet_id :: u16
  ack_rest :: 'x

datatype 'x retain_handling = AtSubscribe | OtherRetainHandling 'x

record 'x subscription_options =
  so_qos :: qos
  so_no_local :: bool
  so_retain_as_published :: bool
  so_retain_handling :: "'x retain_handling"

record 'x subscribe5 =
  sub_packet_id :: u16
  sub_id :: "'x option"
  sub_user_properties :: "'x list"
  sub_topic_filters :: "(string \<times> 'x subscription_options) list"

record 'x unsubscribe5 =
  unsub_packet_id :: u16
  unsub_topic_filters :: "string list"
  unsub_rest :: 'x

datatype 'x disconnect_reason =
    NormalDisconnection
  | ServerShuttingDown
  | ServerBusy
  | UseAnotherServer
  | ServerMoved
  | KeepAliveTimeout
  | OtherReason 'x

record 'x disconnect5 =
  dis_reason_code :: "'x disconnect_reason"
  dis_session_expiry_interval_secs :: "'x option"
  dis_server_reference :: "'x option"
  dis_reason_string :: "'x option"
  dis_user_properties :: "'x list"

record 'x connack5 =
  ca_server_keepalive_sec :: "u16 option"
  ca_rest :: 'x

record 'x connect =
  con_keep_alive :: u16
  con_rest :: 'x

datatype 'x v3_packet =
    V3Connect "'x connect"
  | V3ConnectAck 'x
  | V3Publish "'x publish"
  | V3PublishAck u16
  | V3PublishReceived u16
  | V3PublishRelease u16
  | V3PublishComplete u16
  | V3Subscribe u16 "(string \<times> qos) list"
  | V3SubscribeAck 'x
  | V3Unsubscribe u16 "string list" 'x
  | V3PingRequest
  | V3PingResponse
  | V3Disconnect
  | V3Other 'x

datatype 'x v5_packet =
    V5Connect "'x connect"
  | V5ConnectAck "'x connack5"
  | V5Publish "'x publish"
  | V5PublishAck "'x ack5"
  | V5PublishReceived "'x ack5"
  | V5PublishRelease "'x ack5"
  | V5PublishComplete "'x ack5"
  | V5Subscribe "'x subscribe5"
  | V5SubscribeAck 'x
  | V5Unsubscribe "'x unsubscribe5"
  | V5PingRequest
  | V5PingResponse
  | V5Disconnect "'x disconnect5"
  | V5Other 'x

datatype 'x mqtt_packet =
    V3 "'x v3_packet"
  | V5 "'x v5_packet"
  | Version protocol_version

section \<open>The crate's functions as parameters\<close>

datatype 'c mqtt_codec = V3Codec 'c | V5Codec 'c | VersionCodec

record ('x, 'c) rmqtt =
  qos_u8 :: "qos \<Rightarrow> u8"
  qos_try_from :: "u8 \<Rightarrow> qos option"
  rh_u8 :: "'x retain_handling \<Rightarrow> u8"
  rh_try_from :: "u8 \<Rightarrow> 'x retain_handling option"
  v3_codec_new :: "nat \<Rightarrow> 'c"
  v5_codec_new :: "nat \<Rightarrow> nat \<Rightarrow> 'c"
  v3_encode :: "'c \<Rightarrow> 'x v3_packet \<Rightarrow> string + bytes"
  v5_encode :: "'c \<Rightarrow> 'x v5_packet \<Rightarrow> string + bytes"
  mqtt_encode :: "'c mqtt_codec \<Rightarrow> 'x mqtt_packet \<Rightarrow> string + bytes"
  mqtt_decode :: "'c mqtt_codec \<Rightarrow> bytes \<Rightarrow>
    (string + 'x mqtt_packet option) \<times> 'c mqtt_codec \<times> bytes"

text \<open>
  A framed connection (\<open>Framed<TcpStream, MqttCodec>\<close>): its socket, its codec and the bytes
  received but not yet decoded. \<open>into_parts\<close> and \<open>from_parts\<close> expose exactly these.
\<close>

record 'c framed =
  fr_io :: raw_fd
  fr_codec :: "'c mqtt_codec"
  fr_read_buf :: bytes

text \<open>What \<open>Framed::next\<close> yields: a packet, a codec or transport error, end of stream.\<close>

datatype 'x next_result = NextPacket "'x mqtt_packet" | NextErr string | NextNone

definition MAX_PACKET_SIZE :: nat where
  "MAX_PACKET_SIZE = 1024 * 1024"

definition codec_for :: "('x, 'c) rmqtt \<Rightarrow> protocol_version \<Rightarrow> 'c mqtt_codec" where
  "codec_for C version =
     (case version of
        MQTT3 \<Rightarrow> V3Codec (v3_codec_new C MAX_PACKET_SIZE)
      | MQTT5 \<Rightarrow> V5Codec (v5_codec_new C MAX_PACKET_SIZE MAX_PACKET_SIZE))"

definition invalid_data :: "string \<Rightarrow> err" where
  "invalid_data e = IoError InvalidData e"

section \<open>What the code relies on\<close>

text \<open>
  A decoded PUBLISH above QoS 0 carries a packet identifier (the \<open>expect\<close>s of
  \<open>window.rs\<close> and \<open>outage.rs\<close>), and version packets come from the version codec only.
\<close>

definition publish_has_id :: "'x publish \<Rightarrow> bool" where
  "publish_has_id p \<longleftrightarrow> pub_qos p = AtMostOnce \<or> pub_packet_id p \<noteq> None"

definition packet_ok :: "'x mqtt_packet \<Rightarrow> bool" where
  "packet_ok p = (case p of
      V3 q \<Rightarrow> (case q of V3Publish b \<Rightarrow> publish_has_id b | _ \<Rightarrow> True)
    | V5 q \<Rightarrow> (case q of V5Publish b \<Rightarrow> publish_has_id b | _ \<Rightarrow> True)
    | Version v \<Rightarrow> False)"

text \<open>
  The MQTT control packet types a fixed header carries in its high nibble, for the packets
  the sources keep in encoded form.
\<close>

definition packet_type :: "'x mqtt_packet \<Rightarrow> u8 option" where
  "packet_type p = (case p of
      V3 q \<Rightarrow> (case q of
          V3Publish b \<Rightarrow> Some 3
        | V3PublishRelease i \<Rightarrow> Some 6
        | V3Subscribe i fs \<Rightarrow> Some 8
        | V3Unsubscribe i fs r \<Rightarrow> Some 10
        | _ \<Rightarrow> None)
    | V5 q \<Rightarrow> (case q of
          V5Publish b \<Rightarrow> Some 3
        | V5PublishRelease a \<Rightarrow> Some 6
        | V5Subscribe s \<Rightarrow> Some 8
        | V5Unsubscribe u \<Rightarrow> Some 10
        | _ \<Rightarrow> None)
    | Version v \<Rightarrow> None)"

definition type_nibble :: "bytes \<Rightarrow> u8 option" where
  "type_nibble raw = (case raw of [] \<Rightarrow> None | b # _ \<Rightarrow> Some (drop_bit 4 b))"

text \<open>
  The fixed header of an encoded packet carries the packet's type (MQTT 2.1.2): whenever
  a version codec encodes one of these packets, the result starts with that header.
\<close>

definition encode_headers :: "('x, 'c) rmqtt \<Rightarrow> bool" where
  "encode_headers C \<longleftrightarrow>
     (\<forall>c p raw t. v3_encode C c p = Inr raw \<longrightarrow> packet_type (V3 p) = Some t \<longrightarrow>
        type_nibble raw = Some t) \<and>
     (\<forall>c p raw t. v5_encode C c p = Inr raw \<longrightarrow> packet_type (V5 p) = Some t \<longrightarrow>
        type_nibble raw = Some t)"

text \<open>
  The subscription enumerations convert to the MQTT option bits and back: QoS in two bits,
  retain handling in four.
\<close>

definition enum_laws :: "('x, 'c) rmqtt \<Rightarrow> bool" where
  "enum_laws C \<longleftrightarrow>
     (\<forall>q. qos_try_from C (qos_u8 C q) = Some q \<and> unat (qos_u8 C q) < 4) \<and>
     (\<forall>r. rh_try_from C (rh_u8 C r) = Some r \<and> unat (rh_u8 C r) < 16)"

text \<open>
  Encoding a packet and decoding the result gives a packet with the same keep alive: what the
  recovery of a CONNECT from its re-encoded bytes relies on.
\<close>

definition keep_alive_of :: "'x mqtt_packet \<Rightarrow> u16" where
  "keep_alive_of packet = (case packet of
      V3 (V3Connect c) \<Rightarrow> con_keep_alive c
    | V5 (V5Connect c) \<Rightarrow> con_keep_alive c
    | _ \<Rightarrow> 0)"

definition redecodes :: "('x, 'c) rmqtt \<Rightarrow> bool" where
  "redecodes C \<longleftrightarrow> (\<forall>v p raw. mqtt_encode C (codec_for C v) p = Inr raw \<longrightarrow>
     (\<exists>p' c rest. mqtt_decode C (codec_for C v) raw = (Inr (Some p'), c, rest) \<and>
       keep_alive_of p' = keep_alive_of p))"

section \<open>A concrete instance\<close>

text \<open>
  An instance of the interface, small enough to evaluate, that satisfies the laws. A CONNECT
  is encoded as MQTT lays it out (empty client identifier, no properties), any other packet
  as a fixed header with an empty body. It shows that the hypotheses of the theorems can hold.
\<close>

definition sample_connect :: "u8 \<Rightarrow> u16 \<Rightarrow> bytes \<Rightarrow> bytes" where
  "sample_connect level ka payload =
     [16, 10 + of_nat (length payload), 0, 4, 77, 81, 84, 84, level, 2,
      ucast (drop_bit 8 ka), ucast ka] @ payload"

definition sample_encode :: "unit mqtt_packet \<Rightarrow> string + bytes" where
  "sample_encode p = Inr (case p of
      V3 (V3Connect c) \<Rightarrow> sample_connect 4 (con_keep_alive c) [0, 0]
    | V5 (V5Connect c) \<Rightarrow> sample_connect 5 (con_keep_alive c) [0, 0, 0]
    | _ \<Rightarrow> (case packet_type p of Some t \<Rightarrow> [push_bit 4 t, 0] | None \<Rightarrow> [240, 0]))"

definition sample_decode ::
  "unit mqtt_codec \<Rightarrow> bytes \<Rightarrow> (string + unit mqtt_packet option) \<times> unit mqtt_codec \<times> bytes" where
  "sample_decode c buf =
     (if length buf < 2 then (Inr None, c, buf)
      else if buf ! 0 = 16 \<and> length buf \<ge> 14 \<and> buf ! 8 = 4 then
        (Inr (Some (V3 (V3Connect \<lparr>con_keep_alive = word_cat (buf ! 10) (buf ! 11), con_rest = ()\<rparr>))),
         c, drop 14 buf)
      else if buf ! 0 = 16 \<and> length buf \<ge> 15 then
        (Inr (Some (V5 (V5Connect \<lparr>con_keep_alive = word_cat (buf ! 10) (buf ! 11), con_rest = ()\<rparr>))),
         c, drop 15 buf)
      else if buf ! 0 = 0 then (Inl ''malformed packet'', c, buf)
      else if buf ! 0 = 64 then (Inr (Some (V3 (V3PublishAck 7))), c, drop 2 buf)
      else if buf ! 0 = 208 then (Inr (Some (V3 V3PingResponse)), c, drop 2 buf)
      else (Inr (Some (V3 (V3Other ()))), c, drop 2 buf))"

definition sample_rmqtt :: "(unit, unit) rmqtt" where
  "sample_rmqtt = \<lparr>
     qos_u8 = (\<lambda>q. case q of AtMostOnce \<Rightarrow> 0 | AtLeastOnce \<Rightarrow> 1 | ExactlyOnce \<Rightarrow> 2),
     qos_try_from = (\<lambda>b. if b = 0 then Some AtMostOnce else if b = 1 then Some AtLeastOnce
       else if b = 2 then Some ExactlyOnce else None),
     rh_u8 = (\<lambda>r. case r of AtSubscribe \<Rightarrow> 0 | OtherRetainHandling u \<Rightarrow> 1),
     rh_try_from = (\<lambda>b. if b = 0 then Some AtSubscribe
       else if b = 1 then Some (OtherRetainHandling ()) else None),
     v3_codec_new = (\<lambda>n. ()),
     v5_codec_new = (\<lambda>m n. ()),
     v3_encode = (\<lambda>c p. sample_encode (V3 p)),
     v5_encode = (\<lambda>c p. sample_encode (V5 p)),
     mqtt_encode = (\<lambda>c p. sample_encode p),
     mqtt_decode = sample_decode\<rparr>"

definition sample_publish :: "qos \<Rightarrow> u16 \<Rightarrow> unit mqtt_packet" where
  "sample_publish q i = V3 (V3Publish \<lparr>pub_qos = q, pub_packet_id = Some i, pub_rest = ()\<rparr>)"

section \<open>Lemmas\<close>

lemma word_cat_bytes: "word_cat (ucast (drop_bit 8 ka) :: u8) (ucast ka :: u8) = (ka :: u16)"
  by (rule bit_eqI) (auto simp: bit_word_cat_iff bit_unsigned_iff bit_drop_bit_eq)

lemma type_nibble_simps [simp]:
  "type_nibble [] = None"
  "type_nibble (b # bs) = Some (drop_bit 4 b)"
  by (simp_all add: type_nibble_def)

lemma type_nibble_nonempty: "type_nibble raw = Some t \<Longrightarrow> raw \<noteq> []"
  by (auto simp: type_nibble_def split: list.splits)

lemma encode_headers_v3:
  "encode_headers C \<Longrightarrow> v3_encode C c p = Inr raw \<Longrightarrow> packet_type (V3 p) = Some t \<Longrightarrow>
   type_nibble raw = Some t"
  by (auto simp: encode_headers_def)

lemma encode_headers_v5:
  "encode_headers C \<Longrightarrow> v5_encode C c p = Inr raw \<Longrightarrow> packet_type (V5 p) = Some t \<Longrightarrow>
   type_nibble raw = Some t"
  by (auto simp: encode_headers_def)

lemma sample_headers: "encode_headers sample_rmqtt"
  by (auto simp: encode_headers_def sample_rmqtt_def sample_encode_def packet_type_def
      split: v3_packet.splits v5_packet.splits)

lemma sample_enums: "enum_laws sample_rmqtt"
  by (auto simp: enum_laws_def sample_rmqtt_def split: qos.splits retain_handling.splits)

lemma sample_redecodes: "redecodes sample_rmqtt"
  unfolding redecodes_def
proof (intro allI impI)
  fix v and p :: "unit mqtt_packet" and raw
  assume "mqtt_encode sample_rmqtt (codec_for sample_rmqtt v) p = Inr raw"
  then have raw: "sample_encode p = Inr raw" by (simp add: sample_rmqtt_def)
  show "\<exists>p' c rest. mqtt_decode sample_rmqtt (codec_for sample_rmqtt v) raw =
      (Inr (Some p'), c, rest) \<and> keep_alive_of p' = keep_alive_of p"
    using raw
    by (cases p)
      (auto simp: sample_encode_def sample_rmqtt_def sample_decode_def sample_connect_def
        keep_alive_of_def packet_type_def word_cat_bytes
        split: v3_packet.splits v5_packet.splits)
qed

end
