(* ===== verification/Wire.thy ===== *)
theory Wire
  imports Codec
begin

text \<open>
  The two connections of a session as seen from the code: what has been written to each, in
  order, and how the environment answers. The answers are scripts consumed from the front:
  whether the next write or flush on a connection succeeds (an exhausted script means
  success) and what the next read of the broker connection yields (an exhausted script
  means the peer closed it). Every theorem that does not fix a script holds for all of
  them, so it covers every failure at every write.
\<close>

section \<open>The world of a session\<close>

text \<open>\<open>SendPacket\<close> is \<open>Framed::send\<close>; \<open>WriteRaw\<close> is \<open>get_mut().write_all\<close>.\<close>

datatype 'x out = SendPacket "'x mqtt_packet" | WriteRaw bytes

record 'x world =
  client_log :: "'x out list"
  broker_log :: "'x out list"
  client_ok :: "bool list"
  broker_ok :: "bool list"
  broker_next :: "'x next_result list"

text \<open>
  An effectful computation keeps what it has written when it fails.
\<close>

type_synonym ('x, 'a) io = "'x world \<Rightarrow> 'a res \<times> 'x world"

definition io_return :: "'a \<Rightarrow> ('x, 'a) io" where
  "io_return a w = (Inr a, w)"

definition io_lift :: "'a res \<Rightarrow> ('x, 'a) io" where
  "io_lift r w = (r, w)"

definition io_bind :: "('x, 'a) io \<Rightarrow> ('a \<Rightarrow> ('x, 'b) io) \<Rightarrow> ('x, 'b) io" where
  "io_bind m f w = (case m w of (Inl e, w') \<Rightarrow> (Inl e, w') | (Inr a, w') \<Rightarrow> f a w')"

definition io_then :: "('x, unit) io \<Rightarrow> ('x, 'b) io \<Rightarrow> ('x, 'b) io" where
  "io_then m n = io_bind m (\<lambda>_. n)"

fun io_for :: "('a \<Rightarrow> ('x, unit) io) \<Rightarrow> 'a list \<Rightarrow> ('x, unit) io" where
  "io_for f [] = io_return ()"
| "io_for f (a # as) = io_then (f a) (io_for f as)"

section \<open>Primitive operations\<close>

definition script_head :: "bool list \<Rightarrow> bool" where
  "script_head bs = (case bs of [] \<Rightarrow> True | b # _ \<Rightarrow> b)"

definition client_do :: "err \<Rightarrow> 'x out list \<Rightarrow> ('x, unit) io" where
  "client_do e os w =
     (let w' = w\<lparr>client_ok := tl (client_ok w)\<rparr>
      in if script_head (client_ok w) then (Inr (), w'\<lparr>client_log := client_log w @ os\<rparr>)
         else (Inl e, w'))"

definition broker_do :: "err \<Rightarrow> 'x out list \<Rightarrow> ('x, unit) io" where
  "broker_do e os w =
     (let w' = w\<lparr>broker_ok := tl (broker_ok w)\<rparr>
      in if script_head (broker_ok w) then (Inr (), w'\<lparr>broker_log := broker_log w @ os\<rparr>)
         else (Inl e, w'))"

text \<open>\<open>client.send(p).await.map_err(invalid_data)\<close> and its broker counterpart.\<close>

definition client_send :: "'x mqtt_packet \<Rightarrow> ('x, unit) io" where
  "client_send p = client_do (invalid_data ''send'') [SendPacket p]"

definition broker_send :: "'x mqtt_packet \<Rightarrow> ('x, unit) io" where
  "broker_send p = broker_do (invalid_data ''send'') [SendPacket p]"

text \<open>\<open>get_mut().write_all(raw).await?\<close> and \<open>get_mut().flush().await?\<close>.\<close>

definition client_write_all :: "bytes \<Rightarrow> ('x, unit) io" where
  "client_write_all raw = client_do (IoError OtherIo ''write'') [WriteRaw raw]"

definition broker_write_all :: "bytes \<Rightarrow> ('x, unit) io" where
  "broker_write_all raw = broker_do (IoError OtherIo ''write'') [WriteRaw raw]"

definition client_flush :: "('x, unit) io" where
  "client_flush = client_do (IoError OtherIo ''flush'') []"

definition broker_flush :: "('x, unit) io" where
  "broker_flush = broker_do (IoError OtherIo ''flush'') []"

definition broker_read :: "('x, 'x next_result) io" where
  "broker_read w =
     (case broker_next w of
        [] \<Rightarrow> (Inr NextNone, w)
      | r # rs \<Rightarrow> (Inr r, w\<lparr>broker_next := rs\<rparr>))"

section \<open>Lemmas\<close>

named_theorems io_simps \<open>unfolding of effectful code\<close>
named_theorems wire_ops \<open>definitions of the primitive operations\<close>

lemmas wire_op_defs [wire_ops] =
  client_send_def broker_send_def client_write_all_def broker_write_all_def
  client_flush_def broker_flush_def

lemma io_run_simps [simp, io_simps]:
  "io_return a w = (Inr a, w)"
  "io_lift r w = (r, w)"
  by (simp_all add: io_return_def io_lift_def)

lemma io_bind_eq_Inr:
  "io_bind m f w = (Inr b, w') \<longleftrightarrow> (\<exists>a w1. m w = (Inr a, w1) \<and> f a w1 = (Inr b, w'))"
  by (auto simp: io_bind_def split: prod.splits sum.splits)

lemma io_then_eq_Inr:
  "io_then m n w = (Inr b, w') \<longleftrightarrow> (\<exists>w1. m w = (Inr (), w1) \<and> n w1 = (Inr b, w'))"
  by (auto simp: io_then_def io_bind_eq_Inr)

text \<open>
  A successful operation on one side appends to that side's log and consumes its script;
  it leaves the other side alone.
\<close>

lemma client_do_Inr:
  "client_do e os w = (Inr u, w') \<longleftrightarrow>
   script_head (client_ok w) \<and>
   w' = w\<lparr>client_ok := tl (client_ok w), client_log := client_log w @ os\<rparr>"
  by (auto simp: client_do_def Let_def)

lemma broker_do_Inr:
  "broker_do e os w = (Inr u, w') \<longleftrightarrow>
   script_head (broker_ok w) \<and>
   w' = w\<lparr>broker_ok := tl (broker_ok w), broker_log := broker_log w @ os\<rparr>"
  by (auto simp: broker_do_def Let_def)

text \<open>
  Frame rules for the logs: \<open>emits m cs bs\<close> says that every successful run of \<open>m\<close> appends
  \<open>cs\<close> to the client's log and \<open>bs\<close> to the broker's, and touches no read script.
\<close>

definition emits :: "('x, unit) io \<Rightarrow> 'x out list \<Rightarrow> 'x out list \<Rightarrow> bool" where
  "emits m cs bs \<longleftrightarrow> (\<forall>w w'. m w = (Inr (), w') \<longrightarrow>
     client_log w' = client_log w @ cs \<and> broker_log w' = broker_log w @ bs \<and>
     broker_next w' = broker_next w)"

lemma emitsD:
  assumes "emits m cs bs" and "m w = (Inr u, w')"
  shows "client_log w' = client_log w @ cs"
    and "broker_log w' = broker_log w @ bs"
    and "broker_next w' = broker_next w"
  using assms by (cases u, auto simp: emits_def)+

lemma emits_return: "emits (io_return ()) [] []"
  by (simp add: emits_def)

lemma emits_client_do: "emits (client_do e os) os []"
  by (simp add: emits_def client_do_Inr)

lemma emits_broker_do: "emits (broker_do e os) [] os"
  by (simp add: emits_def broker_do_Inr)

lemma emits_then: "emits m cs bs \<Longrightarrow> emits n cs' bs' \<Longrightarrow> emits (io_then m n) (cs @ cs') (bs @ bs')"
  by (fastforce simp: emits_def io_then_eq_Inr)

lemma emits_for:
  "(\<And>a. a \<in> set as \<Longrightarrow> emits (f a) (c a) (b a)) \<Longrightarrow>
   emits (io_for f as) (concat (map c as)) (concat (map b as))"
  by (induction as) (auto simp: emits_return intro: emits_then)

lemma emits_writes:
  "emits (client_send p) [SendPacket p] []"
  "emits (broker_send p) [] [SendPacket p]"
  "emits (client_write_all raw) [WriteRaw raw] []"
  "emits (broker_write_all raw) [] [WriteRaw raw]"
  "emits client_flush [] []"
  "emits broker_flush [] []"
  by (simp_all add: wire_ops emits_client_do emits_broker_do)

lemma emits_for_client_write:
  "emits (io_for client_write_all raws) (map WriteRaw raws) []"
  using emits_for [of raws client_write_all "\<lambda>r. [WriteRaw r]" "\<lambda>r. []"]
  by (simp add: emits_writes)

lemma emits_for_broker_write:
  "emits (io_for broker_write_all raws) [] (map WriteRaw raws)"
  using emits_for [of raws broker_write_all "\<lambda>r. []" "\<lambda>r. [WriteRaw r]"]
  by (simp add: emits_writes)

text \<open>When no write fails, an operation that only writes succeeds.\<close>

definition all_ok :: "'x world \<Rightarrow> bool" where
  "all_ok w \<longleftrightarrow> list_all (\<lambda>b. b) (client_ok w) \<and> list_all (\<lambda>b. b) (broker_ok w)"

definition safe :: "('x, unit) io \<Rightarrow> bool" where
  "safe m \<longleftrightarrow> (\<forall>w. all_ok w \<longrightarrow> (\<exists>w'. m w = (Inr (), w') \<and> all_ok w'))"

lemma safe_client_do: "safe (client_do e os)"
  unfolding safe_def
proof (intro allI impI)
  fix w :: "'a world"
  assume "all_ok w"
  then show "\<exists>w'. client_do e os w = (Inr (), w') \<and> all_ok w'"
    by (cases "client_ok w") (auto simp: all_ok_def client_do_def script_head_def)
qed

lemma safe_broker_do: "safe (broker_do e os)"
  unfolding safe_def
proof (intro allI impI)
  fix w :: "'a world"
  assume "all_ok w"
  then show "\<exists>w'. broker_do e os w = (Inr (), w') \<and> all_ok w'"
    by (cases "broker_ok w") (auto simp: all_ok_def broker_do_def script_head_def)
qed

lemma safe_return: "safe (io_return ())"
  by (simp add: safe_def)

lemma safe_then: "safe m \<Longrightarrow> safe n \<Longrightarrow> safe (io_then m n)"
  by (fastforce simp: safe_def io_then_def io_bind_def)

lemma safe_for: "(\<And>a. a \<in> set as \<Longrightarrow> safe (f a)) \<Longrightarrow> safe (io_for f as)"
  by (induction as) (auto simp: safe_return intro: safe_then)

lemma safe_writes:
  "safe (client_send p)"
  "safe (broker_send q)"
  "safe (client_write_all raw)"
  "safe (broker_write_all raw')"
  "safe client_flush"
  "safe broker_flush"
  by (simp_all add: wire_ops safe_client_do safe_broker_do)

end
