(* ===== verification/Keyed_Table.thy ===== *)
theory Keyed_Table
  imports Prelude
begin

text \<open>
  The contract of an insertion-ordered table: writing an existing key changes its value in
  place, writing a new key appends it, deleting removes the key and keeps the order of the
  others. The in-flight windows and the subscription table are both of this kind; replay
  order rests on it.
\<close>

locale keyed_table =
  fixes empty :: 't
    and upd :: "'k \<Rightarrow> 'v \<Rightarrow> 't \<Rightarrow> 't"
    and del :: "'k \<Rightarrow> 't \<Rightarrow> 't"
    and entries :: "'t \<Rightarrow> ('k \<times> 'v) list"
  assumes entries_empty: "entries empty = []"
    and entries_inj: "entries t = entries u \<Longrightarrow> t = u"
    and entries_upd_new: "k \<notin> fst ` set (entries t) \<Longrightarrow> entries (upd k v t) = entries t @ [(k, v)]"
    and entries_upd_old: "distinct (map fst (entries t)) \<Longrightarrow> k \<in> fst ` set (entries t) \<Longrightarrow>
      entries (upd k v t) = map (\<lambda>e. if fst e = k then (k, v) else e) (entries t)"
    and entries_del: "entries (del k t) = filter (\<lambda>e. fst e \<noteq> k) (entries t)"
begin

definition wf :: "'t \<Rightarrow> bool" where
  "wf t \<longleftrightarrow> distinct (map fst (entries t))"

definition lookup :: "'t \<Rightarrow> 'k \<rightharpoonup> 'v" where
  "lookup t = map_of (entries t)"

definition keys :: "'t \<Rightarrow> 'k list" where
  "keys t = map fst (entries t)"

lemma wf_empty: "wf empty"
  by (simp add: wf_def entries_empty)

lemma lookup_empty: "lookup empty = Map.empty"
  by (simp add: lookup_def entries_empty)

lemma keys_upd: "wf t \<Longrightarrow> keys (upd k v t) = (if k \<in> set (keys t) then keys t else keys t @ [k])"
  by (cases "k \<in> fst ` set (entries t)")
    (auto simp: wf_def keys_def entries_upd_new entries_upd_old)

lemma keys_del: "keys (del k t) = filter (\<lambda>k'. k' \<noteq> k) (keys t)"
  by (simp add: keys_def entries_del filter_map o_def)

lemma wf_keys: "wf t \<longleftrightarrow> distinct (keys t)"
  by (simp add: wf_def keys_def)

lemma wf_upd: "wf t \<Longrightarrow> wf (upd k v t)"
  by (simp add: wf_keys keys_upd)

lemma wf_del: "wf t \<Longrightarrow> wf (del k t)"
  by (simp add: wf_keys keys_del)

lemma map_of_replace:
  "map_of (map (\<lambda>e. if fst e = k then (k, v) else e) es) =
   (if k \<in> fst ` set es then (map_of es)(k \<mapsto> v) else map_of es)"
  by (induction es) (auto simp: fun_eq_iff)

lemma map_of_snoc: "k \<notin> fst ` set es \<Longrightarrow> map_of (es @ [(k, v)]) = (map_of es)(k \<mapsto> v)"
  by (induction es) (auto simp: fun_eq_iff)

lemma lookup_upd: "wf t \<Longrightarrow> lookup (upd k v t) = (lookup t)(k \<mapsto> v)"
  by (cases "k \<in> fst ` set (entries t)")
    (auto simp: wf_def lookup_def entries_upd_new entries_upd_old map_of_replace map_of_snoc
      simp del: map_of_append)

lemma map_of_filter_key: "map_of (filter (\<lambda>e. fst e \<noteq> k) es) = (map_of es)(k := None)"
  by (induction es) (auto simp: fun_eq_iff)

lemma lookup_del: "lookup (del k t) = (lookup t)(k := None)"
  by (simp add: lookup_def entries_del map_of_filter_key)

lemma lookup_None: "lookup t k = None \<longleftrightarrow> k \<notin> set (keys t)"
  by (simp add: lookup_def keys_def map_of_eq_None_iff)

text \<open>Deleting what was just appended gives the table back.\<close>

lemma del_upd_new: "k \<notin> set (keys t) \<Longrightarrow> del k (upd k v t) = t"
  by (rule entries_inj)
    (auto simp: keys_def entries_del entries_upd_new filter_id_conv image_iff)

lemma del_absent: "k \<notin> set (keys t) \<Longrightarrow> del k t = t"
  by (rule entries_inj) (auto simp: keys_def entries_del filter_id_conv image_iff)

text \<open>A second write to a key supersedes the first one, in the place of the first.\<close>

lemma upd_upd:
  assumes "wf t"
  shows "upd k v' (upd k v t) = upd k v' t"
proof (rule entries_inj)
  have k: "k \<in> fst ` set (entries (upd k v t))"
    using keys_upd [OF assms, of k v] by (auto simp: keys_def simp flip: set_map)
  have twice: "entries (upd k v' (upd k v t)) =
      map (\<lambda>e. if fst e = k then (k, v') else e) (entries (upd k v t))"
    using wf_upd [OF assms, of k v] k by (simp add: wf_def entries_upd_old)
  show "entries (upd k v' (upd k v t)) = entries (upd k v' t)"
  proof (cases "k \<in> fst ` set (entries t)")
    case True
    with assms show ?thesis by (auto simp: twice wf_def entries_upd_old)
  next
    case False
    then have "map (\<lambda>e. if fst e = k then (k, v') else e) (entries t) = entries t"
      by (auto intro!: map_idI simp: image_iff)
    with False show ?thesis by (simp add: twice entries_upd_new)
  qed
qed

text \<open>Re-inserting the entries of a table in their order rebuilds the table.\<close>

lemma entries_rebuild:
  "distinct (map fst (entries t @ es)) \<Longrightarrow>
   entries (fold (\<lambda>(k, v). upd k v) es t) = entries t @ es"
proof (induction es arbitrary: t)
  case Nil
  then show ?case by simp
next
  case (Cons e es)
  obtain k v where e: "e = (k, v)" by (cases e)
  with Cons.prems have "entries (upd k v t) = entries t @ [(k, v)]"
    by (auto simp: entries_upd_new)
  with Cons.IH [of "upd k v t"] Cons.prems e show ?case by simp
qed

lemma rebuild: "wf t \<Longrightarrow> fold (\<lambda>(k, v). upd k v) (entries t) empty = t"
  by (rule entries_inj) (simp add: wf_def entries_rebuild entries_empty)

lemma set_entries_upd: "set (entries (upd k v t)) \<subseteq> insert (k, v) (set (entries t))"
  if "wf t"
  using that by (cases "k \<in> fst ` set (entries t)")
    (auto simp: wf_def entries_upd_new entries_upd_old)

lemma set_entries_del: "set (entries (del k t)) \<subseteq> set (entries t)"
  by (auto simp: entries_del)

end

end
