(* ===== verification/Window.thy ===== *)
theory Window
  imports Codec Keyed_Table
begin

text \<open>
  QoS in-flight windows (\<open>window.rs\<close>): for each direction the ordered table of QoS 1/2
  packets forwarded but not acknowledged end to end, keyed by packet identifier. The theory
  follows the file: the table helpers, the encoder, the tracking of both directions, the
  retransmissions, and the snapshot of a session. Panics (\<open>expect\<close>, \<open>unreachable!\<close>, an
  empty buffer) are error values; the invariant shows that none is reachable.
\<close>

section \<open>Data\<close>

datatype window_state =
    C2BPublishSent
  | C2BPubrelSent
  | B2CPublishSent
  | B2CPubrecForwarded

record window_entry =
  we_packet_id :: u16
  we_state :: window_state
  we_raw :: bytes

definition DUP_FLAG :: u8 where
  "DUP_FLAG = 8"

type_synonym window_vec = "(u16 \<times> (window_state \<times> bytes)) list"

record inflight_windows =
  c2b :: window_vec
  b2c :: window_vec

section \<open>Table helpers\<close>

definition vec_insert :: "window_vec \<Rightarrow> u16 \<Rightarrow> window_state \<times> bytes \<Rightarrow> window_vec" where
  "vec_insert v pid entry =
     (case update_first (\<lambda>s. fst s = pid) (\<lambda>s. (fst s, entry)) v of
        Some v' \<Rightarrow> v'
      | None \<Rightarrow> v @ [(pid, entry)])"

definition vec_remove :: "window_vec \<Rightarrow> u16 \<Rightarrow> window_vec" where
  "vec_remove v pid = filter (\<lambda>s. fst s \<noteq> pid) v"

text \<open>A write through the reference \<open>vec_get_mut\<close> returns, \<open>None\<close> when there is none.\<close>

definition vec_get_mut ::
  "window_vec \<Rightarrow> u16 \<Rightarrow> (window_state \<times> bytes \<Rightarrow> window_state \<times> bytes) \<Rightarrow> window_vec option" where
  "vec_get_mut v pid f = update_first (\<lambda>s. fst s = pid) (\<lambda>s. (fst s, f (snd s))) v"

definition vec_contains :: "window_vec \<Rightarrow> u16 \<Rightarrow> bool" where
  "vec_contains v pid = list_ex (\<lambda>s. fst s = pid) v"

section \<open>Encoding\<close>

definition expect_encoded :: "string + bytes \<Rightarrow> bytes res" where
  "expect_encoded r =
     (case r of
        Inl e \<Rightarrow> Inl (Panicked ''window packets must be encodable'')
      | Inr raw \<Rightarrow> Inr raw)"

definition encode_raw :: "('x, 'c) rmqtt \<Rightarrow> 'x mqtt_packet \<Rightarrow> bytes res" where
  "encode_raw C packet =
     (case packet of
        V3 p \<Rightarrow> expect_encoded (v3_encode C (v3_codec_new C (1024 * 1024)) p)
      | V5 p \<Rightarrow> expect_encoded (v5_encode C (v5_codec_new C (1024 * 1024) (1024 * 1024)) p)
      | Version v \<Rightarrow> Inl (Panicked ''version packets are never tracked''))"

definition with_dup :: "bytes \<Rightarrow> bytes res" where
  "with_dup raw =
     (case raw of
        [] \<Rightarrow> Inl (Panicked ''index out of bounds'')
      | b # bs \<Rightarrow> Inr ((b OR DUP_FLAG) # bs))"

section \<open>Tracking\<close>

definition windows_new :: inflight_windows where
  "windows_new = \<lparr>c2b = [], b2c = []\<rparr>"

definition insert_c2b_raw ::
  "inflight_windows \<Rightarrow> u16 \<Rightarrow> window_state \<Rightarrow> bytes \<Rightarrow> inflight_windows" where
  "insert_c2b_raw w pid st raw = w\<lparr>c2b := vec_insert (c2b w) pid (st, raw)\<rparr>"

definition c2b_insert :: "('x, 'c) rmqtt \<Rightarrow> inflight_windows \<Rightarrow> qos \<Rightarrow> u16 option \<Rightarrow>
    'x mqtt_packet \<Rightarrow> inflight_windows res" where
  "c2b_insert C w q pid packet =
     (if q = AtMostOnce then Inr w
      else rbind (ok_or (Panicked ''QoS>0 PUBLISH must have a packet id'') pid) (\<lambda>i.
           rbind (encode_raw C packet) (\<lambda>raw.
           Inr (w\<lparr>c2b := vec_insert (c2b w) i (C2BPublishSent, raw)\<rparr>))))"

definition b2c_insert :: "('x, 'c) rmqtt \<Rightarrow> inflight_windows \<Rightarrow> qos \<Rightarrow> u16 option \<Rightarrow>
    'x mqtt_packet \<Rightarrow> inflight_windows res" where
  "b2c_insert C w q pid packet =
     (if q = AtMostOnce then Inr w
      else rbind (ok_or (Panicked ''QoS>0 PUBLISH must have a packet id'') pid) (\<lambda>i.
           rbind (encode_raw C packet) (\<lambda>raw.
           Inr (w\<lparr>b2c := vec_insert (b2c w) i (B2CPublishSent, raw)\<rparr>))))"

definition c2b_transition :: "('x, 'c) rmqtt \<Rightarrow> inflight_windows \<Rightarrow> u16 \<Rightarrow> window_state \<Rightarrow>
    'x mqtt_packet \<Rightarrow> inflight_windows res" where
  "c2b_transition C w pid st packet =
     (if vec_contains (c2b w) pid
      then rbind (encode_raw C packet) (\<lambda>raw.
           Inr (w\<lparr>c2b := vec_insert (c2b w) pid (st, raw)\<rparr>))
      else Inr w)"

definition b2c_transition :: "inflight_windows \<Rightarrow> u16 \<Rightarrow> window_state \<Rightarrow> inflight_windows" where
  "b2c_transition w pid st =
     (case vec_get_mut (b2c w) pid (\<lambda>e. (st, snd e)) of
        Some v \<Rightarrow> w\<lparr>b2c := v\<rparr>
      | None \<Rightarrow> w)"

definition remove_c2b :: "inflight_windows \<Rightarrow> u16 \<Rightarrow> inflight_windows" where
  "remove_c2b w pid = w\<lparr>c2b := vec_remove (c2b w) pid\<rparr>"

definition remove_b2c :: "inflight_windows \<Rightarrow> u16 \<Rightarrow> inflight_windows" where
  "remove_b2c w pid = w\<lparr>b2c := vec_remove (b2c w) pid\<rparr>"

definition track_c2b ::
  "('x, 'c) rmqtt \<Rightarrow> inflight_windows \<Rightarrow> 'x mqtt_packet \<Rightarrow> inflight_windows res" where
  "track_c2b C w packet =
     (case packet of
        V3 p3 \<Rightarrow>
          (case p3 of
             V3Publish p \<Rightarrow> c2b_insert C w (pub_qos p) (pub_packet_id p) packet
           | V3PublishRelease pid \<Rightarrow> c2b_transition C w pid C2BPubrelSent packet
           | V3PublishAck pid \<Rightarrow> Inr (remove_b2c w pid)
           | V3PublishReceived pid \<Rightarrow> Inr (b2c_transition w pid B2CPubrecForwarded)
           | V3PublishComplete pid \<Rightarrow> Inr (remove_b2c w pid)
           | _ \<Rightarrow> Inr w)
      | V5 p5 \<Rightarrow>
          (case p5 of
             V5Publish p \<Rightarrow> c2b_insert C w (pub_qos p) (pub_packet_id p) packet
           | V5PublishRelease ack \<Rightarrow> c2b_transition C w (ack_packet_id ack) C2BPubrelSent packet
           | V5PublishAck ack \<Rightarrow> Inr (remove_b2c w (ack_packet_id ack))
           | V5PublishReceived ack \<Rightarrow>
               Inr (b2c_transition w (ack_packet_id ack) B2CPubrecForwarded)
           | V5PublishComplete ack \<Rightarrow> Inr (remove_b2c w (ack_packet_id ack))
           | _ \<Rightarrow> Inr w)
      | Version v \<Rightarrow> Inr w)"

definition track_b2c ::
  "('x, 'c) rmqtt \<Rightarrow> inflight_windows \<Rightarrow> 'x mqtt_packet \<Rightarrow> inflight_windows res" where
  "track_b2c C w packet =
     (case packet of
        V3 p3 \<Rightarrow>
          (case p3 of
             V3Publish p \<Rightarrow> b2c_insert C w (pub_qos p) (pub_packet_id p) packet
           | V3PublishAck pid \<Rightarrow> Inr (remove_c2b w pid)
           | V3PublishComplete pid \<Rightarrow> Inr (remove_c2b w pid)
           | _ \<Rightarrow> Inr w)
      | V5 p5 \<Rightarrow>
          (case p5 of
             V5Publish p \<Rightarrow> b2c_insert C w (pub_qos p) (pub_packet_id p) packet
           | V5PublishAck ack \<Rightarrow> Inr (remove_c2b w (ack_packet_id ack))
           | V5PublishComplete ack \<Rightarrow> Inr (remove_c2b w (ack_packet_id ack))
           | _ \<Rightarrow> Inr w)
      | Version v \<Rightarrow> Inr w)"

section \<open>Retransmission and snapshots\<close>

definition broker_retransmits :: "inflight_windows \<Rightarrow> bytes list res" where
  "broker_retransmits w =
     rmap (\<lambda>(_, st, raw).
       case st of
         C2BPublishSent \<Rightarrow> with_dup raw
       | C2BPubrelSent \<Rightarrow> Inr raw
       | _ \<Rightarrow> Inl (Panicked ''c2b window holds only c2b states'')) (c2b w)"

definition client_retransmits :: "inflight_windows \<Rightarrow> bytes list res" where
  "client_retransmits w =
     rbind (rmap (\<lambda>(_, st, raw).
       case st of
         B2CPublishSent \<Rightarrow> rbind (with_dup raw) (\<lambda>r. Inr (Some r))
       | B2CPubrecForwarded \<Rightarrow> Inr None
       | _ \<Rightarrow> Inl (Panicked ''b2c window holds only b2c states'')) (b2c w))
     (\<lambda>rs. Inr (List.map_filter (\<lambda>r. r) rs))"

definition windows_is_empty :: "inflight_windows \<Rightarrow> bool" where
  "windows_is_empty w \<longleftrightarrow> c2b w = [] \<and> b2c w = []"

definition entry_of :: "u16 \<times> (window_state \<times> bytes) \<Rightarrow> window_entry" where
  "entry_of e = \<lparr>we_packet_id = fst e, we_state = fst (snd e), we_raw = snd (snd e)\<rparr>"

definition snapshot :: "inflight_windows \<Rightarrow> window_entry list" where
  "snapshot w = map entry_of (c2b w) @ map entry_of (b2c w)"

definition restore_entry :: "window_entry \<Rightarrow> inflight_windows \<Rightarrow> inflight_windows" where
  "restore_entry e w =
     (if we_state e = C2BPublishSent \<or> we_state e = C2BPubrelSent
      then w\<lparr>c2b := vec_insert (c2b w) (we_packet_id e) (we_state e, we_raw e)\<rparr>
      else w\<lparr>b2c := vec_insert (b2c w) (we_packet_id e) (we_state e, we_raw e)\<rparr>)"

definition from_snapshot :: "window_entry list \<Rightarrow> inflight_windows" where
  "from_snapshot es = fold restore_entry es windows_new"

section \<open>The invariant\<close>

text \<open>
  The packet type each state keeps in encoded form. An entry whose PUBREC was forwarded
  still holds the PUBLISH.
\<close>

fun state_type :: "window_state \<Rightarrow> u8" where
  "state_type C2BPublishSent = 3"
| "state_type C2BPubrelSent = 6"
| "state_type B2CPublishSent = 3"
| "state_type B2CPubrecForwarded = 3"

definition entry_ok :: "window_state set \<Rightarrow> window_state \<times> bytes \<Rightarrow> bool" where
  "entry_ok S e \<longleftrightarrow> fst e \<in> S \<and> type_nibble (snd e) = Some (state_type (fst e))"

definition table_ok :: "window_state set \<Rightarrow> window_vec \<Rightarrow> bool" where
  "table_ok S v \<longleftrightarrow> distinct (map fst v) \<and> (\<forall>e \<in> set v. entry_ok S (snd e))"

definition window_inv :: "inflight_windows \<Rightarrow> bool" where
  "window_inv w \<longleftrightarrow>
     table_ok {C2BPublishSent, C2BPubrelSent} (c2b w) \<and>
     table_ok {B2CPublishSent, B2CPubrecForwarded} (b2c w)"

section \<open>The QoS view of a packet\<close>

text \<open>
  Both protocol versions carry the same acknowledgement protocol. The view of a packet is
  the step it makes there; it is the vocabulary of the specification below.
\<close>

datatype qos_view =
    ViewPublish u16
  | ViewAck u16
  | ViewReceived u16
  | ViewRelease u16
  | ViewComplete u16
  | ViewNone

definition publish_view :: "'x publish \<Rightarrow> qos_view" where
  "publish_view p =
     (if pub_qos p = AtMostOnce then ViewNone
      else case pub_packet_id p of Some i \<Rightarrow> ViewPublish i | None \<Rightarrow> ViewNone)"

definition view_of :: "'x mqtt_packet \<Rightarrow> qos_view" where
  "view_of p = (case p of
      V3 q \<Rightarrow> (case q of
          V3Publish b \<Rightarrow> publish_view b
        | V3PublishAck i \<Rightarrow> ViewAck i
        | V3PublishReceived i \<Rightarrow> ViewReceived i
        | V3PublishRelease i \<Rightarrow> ViewRelease i
        | V3PublishComplete i \<Rightarrow> ViewComplete i
        | _ \<Rightarrow> ViewNone)
    | V5 q \<Rightarrow> (case q of
          V5Publish b \<Rightarrow> publish_view b
        | V5PublishAck a \<Rightarrow> ViewAck (ack_packet_id a)
        | V5PublishReceived a \<Rightarrow> ViewReceived (ack_packet_id a)
        | V5PublishRelease a \<Rightarrow> ViewRelease (ack_packet_id a)
        | V5PublishComplete a \<Rightarrow> ViewComplete (ack_packet_id a)
        | _ \<Rightarrow> ViewNone)
    | Version v \<Rightarrow> ViewNone)"

text \<open>A packet is encodable when the encoder accepts it, which decoded packets are.\<close>

definition encodable :: "('x, 'c) rmqtt \<Rightarrow> 'x mqtt_packet \<Rightarrow> bool" where
  "encodable C p \<longleftrightarrow> (\<exists>raw. encode_raw C p = Inr raw)"

text \<open>
  The abstract ledger: for each direction the packets still owed an acknowledgement, as
  maps from identifiers. The proxy sends on behalf of the client and of the broker alike.
\<close>

type_synonym ledger = "(u16 \<rightharpoonup> window_state \<times> bytes) \<times> (u16 \<rightharpoonup> window_state \<times> bytes)"

definition ledger_of :: "inflight_windows \<Rightarrow> ledger" where
  "ledger_of w = (map_of (c2b w), map_of (b2c w))"

text \<open>The effect of a packet the client sends, given its encoding.\<close>

fun client_step :: "qos_view \<Rightarrow> bytes \<Rightarrow> ledger \<Rightarrow> ledger" where
  "client_step (ViewPublish i) raw (up, down) = (up(i \<mapsto> (C2BPublishSent, raw)), down)"
| "client_step (ViewRelease i) raw (up, down) =
     (if up i = None then up else up(i \<mapsto> (C2BPubrelSent, raw)), down)"
| "client_step (ViewAck i) raw (up, down) = (up, down(i := None))"
| "client_step (ViewReceived i) raw (up, down) =
     (up, case down i of None \<Rightarrow> down | Some e \<Rightarrow> down(i \<mapsto> (B2CPubrecForwarded, snd e)))"
| "client_step (ViewComplete i) raw (up, down) = (up, down(i := None))"
| "client_step ViewNone raw l = l"

text \<open>The effect of a packet the broker sends.\<close>

fun broker_step :: "qos_view \<Rightarrow> bytes \<Rightarrow> ledger \<Rightarrow> ledger" where
  "broker_step (ViewPublish i) raw (up, down) = (up, down(i \<mapsto> (B2CPublishSent, raw)))"
| "broker_step (ViewAck i) raw (up, down) = (up(i := None), down)"
| "broker_step (ViewComplete i) raw (up, down) = (up(i := None), down)"
| "broker_step (ViewReceived i) raw l = l"
| "broker_step (ViewRelease i) raw l = l"
| "broker_step ViewNone raw l = l"

text \<open>A conversation: packets in both directions, in the order the session handles them.\<close>

datatype 'x traffic = FromClient "'x mqtt_packet" | FromBroker "'x mqtt_packet"

fun traffic_packet :: "'x traffic \<Rightarrow> 'x mqtt_packet" where
  "traffic_packet (FromClient p) = p"
| "traffic_packet (FromBroker p) = p"

fun track :: "('x, 'c) rmqtt \<Rightarrow> 'x traffic \<Rightarrow> inflight_windows \<Rightarrow> inflight_windows res" where
  "track C (FromClient p) w = track_c2b C w p"
| "track C (FromBroker p) w = track_b2c C w p"

definition track_all ::
  "('x, 'c) rmqtt \<Rightarrow> 'x traffic list \<Rightarrow> inflight_windows \<Rightarrow> inflight_windows res" where
  "track_all C = rfold (track C)"

text \<open>
  How a retransmitted packet relates to the stored one: the same bytes, except that the DUP
  bit (bit 3 of the fixed header) is set when the packet is a PUBLISH.
\<close>

definition resent :: "bool \<Rightarrow> bytes \<Rightarrow> bytes \<Rightarrow> bool" where
  "resent dup raw r \<longleftrightarrow> raw \<noteq> [] \<and> r \<noteq> [] \<and> tl r = tl raw \<and>
     (\<forall>n. bit (hd r) n \<longleftrightarrow> bit (hd raw) n \<or> dup \<and> n = 3)"

text \<open>The abstract effect of one packet of a conversation, with its encoding.\<close>

definition encoding :: "('x, 'c) rmqtt \<Rightarrow> 'x mqtt_packet \<Rightarrow> bytes" where
  "encoding C p = (case encode_raw C p of Inr raw \<Rightarrow> raw | Inl e \<Rightarrow> [])"

fun ledger_event :: "('x, 'c) rmqtt \<Rightarrow> 'x traffic \<Rightarrow> ledger \<Rightarrow> ledger" where
  "ledger_event C (FromClient p) l = client_step (view_of p) (encoding C p) l"
| "ledger_event C (FromBroker p) l = broker_step (view_of p) (encoding C p) l"

text \<open>
  MQTT v5 lets a receiver refuse a QoS 2 PUBLISH with a PUBREC whose reason code is a failure,
  which ends the exchange like a PUBACK. The reason code is in the part of the packet the
  program does not look at, so the reading of it is an argument, \<open>fails\<close>.
\<close>

definition refuses :: "('x ack5 \<Rightarrow> bool) \<Rightarrow> 'x mqtt_packet \<Rightarrow> bool" where
  "refuses fails p = (case p of V5 (V5PublishReceived a) \<Rightarrow> fails a | _ \<Rightarrow> False)"

definition mqtt_view :: "('x ack5 \<Rightarrow> bool) \<Rightarrow> 'x mqtt_packet \<Rightarrow> qos_view" where
  "mqtt_view fails p =
     (case view_of p of ViewReceived i \<Rightarrow> if refuses fails p then ViewAck i else ViewReceived i
      | v \<Rightarrow> v)"

fun mqtt_event :: "('x, 'c) rmqtt \<Rightarrow> ('x ack5 \<Rightarrow> bool) \<Rightarrow> 'x traffic \<Rightarrow> ledger \<Rightarrow> ledger" where
  "mqtt_event C fails (FromClient p) l = client_step (mqtt_view fails p) (encoding C p) l"
| "mqtt_event C fails (FromBroker p) l = broker_step (mqtt_view fails p) (encoding C p) l"

text \<open>
  The exchanges of each direction: the identifier a packet opens one for and the identifier a
  packet closes one for.
\<close>

fun opens_up :: "'x traffic \<Rightarrow> u16 option" where
  "opens_up (FromClient p) = (case view_of p of ViewPublish i \<Rightarrow> Some i | _ \<Rightarrow> None)"
| "opens_up (FromBroker p) = None"

fun closes_up :: "'x traffic \<Rightarrow> u16 option" where
  "closes_up (FromBroker p) =
     (case view_of p of ViewAck i \<Rightarrow> Some i | ViewComplete i \<Rightarrow> Some i | _ \<Rightarrow> None)"
| "closes_up (FromClient p) = None"

fun opens_down :: "'x traffic \<Rightarrow> u16 option" where
  "opens_down (FromBroker p) = (case view_of p of ViewPublish i \<Rightarrow> Some i | _ \<Rightarrow> None)"
| "opens_down (FromClient p) = None"

fun closes_down :: "'x traffic \<Rightarrow> u16 option" where
  "closes_down (FromClient p) =
     (case view_of p of ViewAck i \<Rightarrow> Some i | ViewComplete i \<Rightarrow> Some i | _ \<Rightarrow> None)"
| "closes_down (FromBroker p) = None"

text \<open>
  The open exchanges in arrival order: an opening goes to the end, a closing is taken out.
  Slots differ from it when a PUBLISH repeats an identifier that is still open: the
  repetition stays in the slot of the first.
\<close>

definition arrival ::
  "('x traffic \<Rightarrow> u16 option) \<Rightarrow> ('x traffic \<Rightarrow> u16 option) \<Rightarrow> 'x traffic \<Rightarrow> u16 list \<Rightarrow> u16 list" where
  "arrival opens closes e ids =
     (case opens e of
        Some i \<Rightarrow> ids @ [i]
      | None \<Rightarrow> (case closes e of Some i \<Rightarrow> filter (\<lambda>j. j \<noteq> i) ids | None \<Rightarrow> ids))"

definition slot ::
  "('x traffic \<Rightarrow> u16 option) \<Rightarrow> ('x traffic \<Rightarrow> u16 option) \<Rightarrow> 'x traffic \<Rightarrow> u16 list \<Rightarrow> u16 list" where
  "slot opens closes e ids =
     (case opens e of
        Some i \<Rightarrow> if i \<in> set ids then ids else ids @ [i]
      | None \<Rightarrow> (case closes e of Some i \<Rightarrow> filter (\<lambda>j. j \<noteq> i) ids | None \<Rightarrow> ids))"

fun no_reuse ::
  "('x traffic \<Rightarrow> u16 option) \<Rightarrow> ('x traffic \<Rightarrow> u16 option) \<Rightarrow> 'x traffic list \<Rightarrow> u16 list \<Rightarrow> bool" where
  "no_reuse opens closes [] ids = True"
| "no_reuse opens closes (e # es) ids =
     ((case opens e of Some i \<Rightarrow> i \<notin> set ids | None \<Rightarrow> True) \<and>
      no_reuse opens closes es (arrival opens closes e ids))"

text \<open>The traffic a session can see: decodable packets the encoder accepts back.\<close>

definition traffic_ok :: "('x, 'c) rmqtt \<Rightarrow> 'x traffic list \<Rightarrow> bool" where
  "traffic_ok C es \<longleftrightarrow>
     (\<forall>e \<in> set es. packet_ok (traffic_packet e) \<and> encodable C (traffic_packet e))"

section \<open>The windows are ordered tables\<close>

lemma vec_insert_new: "pid \<notin> fst ` set v \<Longrightarrow> vec_insert v pid e = v @ [(pid, e)]"
proof -
  assume "pid \<notin> fst ` set v"
  then have "update_first (\<lambda>s. fst s = pid) (\<lambda>s. (fst s, e)) v = None"
    by (auto simp: update_first_None)
  then show ?thesis by (simp add: vec_insert_def)
qed

lemma vec_insert_old:
  assumes "distinct (map fst v)" and "pid \<in> fst ` set v"
  shows "vec_insert v pid e = map (\<lambda>s. if fst s = pid then (pid, e) else s) v"
proof -
  have "\<exists>s \<in> set v. fst s = pid" using assms(2) by auto
  from update_first_distinct [OF assms(1) this, of "\<lambda>s. (fst s, e)"] show ?thesis
    by (auto simp: vec_insert_def)
qed

interpretation wv: keyed_table
  "[]" "\<lambda>k e v. vec_insert v k e" "\<lambda>k v. vec_remove v k" "\<lambda>v. v"
  by unfold_locales (simp_all add: vec_insert_new vec_insert_old vec_remove_def)

lemma wv_views: "wv.wf v \<longleftrightarrow> distinct (map fst v)" "wv.lookup v = map_of v" "wv.keys v = map fst v"
  by (simp_all add: wv.wf_def wv.lookup_def wv.keys_def)

lemma vec_contains_iff: "vec_contains v pid \<longleftrightarrow> pid \<in> fst ` set v"
  by (auto simp: vec_contains_def list_ex_iff)

lemma vec_get_mut_None: "pid \<notin> fst ` set v \<Longrightarrow> vec_get_mut v pid f = None"
  by (auto simp: vec_get_mut_def update_first_None)

lemma vec_get_mut_Some:
  assumes "distinct (map fst v)" and "pid \<in> fst ` set v"
  shows "vec_get_mut v pid f = Some (map (\<lambda>s. if fst s = pid then (fst s, f (snd s)) else s) v)"
proof -
  have "\<exists>s \<in> set v. fst s = pid" using assms(2) by auto
  from update_first_distinct [OF assms(1) this] show ?thesis by (simp add: vec_get_mut_def)
qed

lemma map_of_modify:
  "map_of (map (\<lambda>s. if fst s = k then (fst s, f (snd s)) else s) v) =
   (case map_of v k of None \<Rightarrow> map_of v | Some e \<Rightarrow> (map_of v)(k \<mapsto> f e))"
  by (induction v) (auto simp: fun_eq_iff split: option.splits)

section \<open>Tables keep their invariant\<close>

lemma table_ok_Nil [simp]: "table_ok S []"
  by (simp add: table_ok_def)

lemma table_ok_insert [inv_intros]:
  assumes "table_ok S v" and "entry_ok S e"
  shows "table_ok S (vec_insert v pid e)"
proof -
  have wf: "wv.wf v" using assms by (simp add: table_ok_def wv_views)
  have "set (vec_insert v pid e) \<subseteq> insert (pid, e) (set v)"
    using wv.set_entries_upd [OF wf] .
  with assms wv.wf_upd [OF wf, of pid e] show ?thesis
    by (auto simp: table_ok_def wv_views)
qed

lemma table_ok_remove [inv_intros]: "table_ok S v \<Longrightarrow> table_ok S (vec_remove v pid)"
  using wv.wf_del [where k = pid and t = v] wv.set_entries_del [where k = pid and t = v]
  by (auto simp: table_ok_def wv_views)

lemma table_ok_modify:
  assumes "table_ok S v" and "\<And>e. entry_ok S e \<Longrightarrow> entry_ok S (f e)"
  shows "table_ok S (map (\<lambda>s. if fst s = pid then (fst s, f (snd s)) else s) v)"
  using assms by (auto simp: table_ok_def comp_def if_distrib cong: if_cong)

section \<open>Both versions at once\<close>

text \<open>
  On packets the codec can produce, tracking depends on the QoS view only. Everything below
  is proved over the view, once for both protocol versions.
\<close>

lemma track_c2b_view:
  assumes "packet_ok p"
  shows "track_c2b C w p = (case view_of p of
      ViewPublish i \<Rightarrow> rbind (encode_raw C p) (\<lambda>raw.
        Inr (w\<lparr>c2b := vec_insert (c2b w) i (C2BPublishSent, raw)\<rparr>))
    | ViewRelease i \<Rightarrow> c2b_transition C w i C2BPubrelSent p
    | ViewAck i \<Rightarrow> Inr (remove_b2c w i)
    | ViewReceived i \<Rightarrow> Inr (b2c_transition w i B2CPubrecForwarded)
    | ViewComplete i \<Rightarrow> Inr (remove_b2c w i)
    | ViewNone \<Rightarrow> Inr w)"
  using assms
  by (auto simp: track_c2b_def view_of_def packet_ok_def publish_view_def publish_has_id_def
      c2b_insert_def split: mqtt_packet.splits v3_packet.splits v5_packet.splits option.splits)

lemma track_b2c_view:
  assumes "packet_ok p"
  shows "track_b2c C w p = (case view_of p of
      ViewPublish i \<Rightarrow> rbind (encode_raw C p) (\<lambda>raw.
        Inr (w\<lparr>b2c := vec_insert (b2c w) i (B2CPublishSent, raw)\<rparr>))
    | ViewAck i \<Rightarrow> Inr (remove_c2b w i)
    | ViewComplete i \<Rightarrow> Inr (remove_c2b w i)
    | _ \<Rightarrow> Inr w)"
  using assms
  by (auto simp: track_b2c_def view_of_def packet_ok_def publish_view_def publish_has_id_def
      b2c_insert_def split: mqtt_packet.splits v3_packet.splits v5_packet.splits option.splits)

lemma encode_raw_type:
  assumes "encode_headers C" and "encode_raw C p = Inr raw" and "packet_type p = Some t"
  shows "type_nibble raw = Some t"
  using assms
  by (auto simp: encode_raw_def expect_encoded_def split: mqtt_packet.splits sum.splits
      dest: encode_headers_v3 encode_headers_v5)

lemma view_packet_type:
  "view_of p = ViewPublish i \<Longrightarrow> packet_type p = Some 3"
  "view_of p = ViewRelease i \<Longrightarrow> packet_type p = Some 6"
  by (auto simp: view_of_def packet_type_def publish_view_def
      split: mqtt_packet.splits v3_packet.splits v5_packet.splits if_splits option.splits)

lemma encode_raw_view:
  assumes "encode_headers C" and "encode_raw C p = Inr raw"
  shows "view_of p = ViewPublish i \<Longrightarrow> type_nibble raw = Some 3"
    and "view_of p = ViewRelease i \<Longrightarrow> type_nibble raw = Some 6"
  using assms by (auto intro: encode_raw_type dest: view_packet_type)

section \<open>The invariant is kept and tracking never panics\<close>

lemma window_inv_new: "window_inv windows_new"
  by (simp add: window_inv_def windows_new_def)

lemma window_inv_remove [inv_intros]:
  "window_inv w \<Longrightarrow> window_inv (remove_b2c w pid)"
  "window_inv w \<Longrightarrow> window_inv (remove_c2b w pid)"
  by (simp_all add: window_inv_def remove_b2c_def remove_c2b_def table_ok_remove)

lemma window_inv_insert_raw [inv_intros]:
  "window_inv w \<Longrightarrow> st \<in> {C2BPublishSent, C2BPubrelSent} \<Longrightarrow>
   type_nibble raw = Some (state_type st) \<Longrightarrow> window_inv (insert_c2b_raw w pid st raw)"
  by (auto simp: window_inv_def insert_c2b_raw_def entry_ok_def intro!: inv_intros)

lemma window_inv_b2c_transition [inv_intros]:
  assumes "window_inv w"
  shows "window_inv (b2c_transition w pid B2CPubrecForwarded)"
proof (cases "pid \<in> fst ` set (b2c w)")
  case True
  have d: "distinct (map fst (b2c w))" using assms by (simp add: window_inv_def table_ok_def)
  have "table_ok {B2CPublishSent, B2CPubrecForwarded}
      (map (\<lambda>s. if fst s = pid then (fst s, (B2CPubrecForwarded, snd (snd s))) else s) (b2c w))"
    by (rule table_ok_modify [where f = "\<lambda>e. (B2CPubrecForwarded, snd e)"])
      (use assms in \<open>auto simp: window_inv_def entry_ok_def\<close>)
  with assms show ?thesis
    by (simp add: window_inv_def b2c_transition_def vec_get_mut_Some [OF d True])
next
  case False
  with assms show ?thesis by (simp add: b2c_transition_def vec_get_mut_None)
qed

lemma track_c2b_inv:
  assumes "encode_headers C" and "packet_ok p" and "encodable C p" and "window_inv w"
  shows "\<exists>w'. track_c2b C w p = Inr w' \<and> window_inv w'"
proof -
  obtain raw where raw: "encode_raw C p = Inr raw" using assms(3) by (auto simp: encodable_def)
  note types = encode_raw_view [OF assms(1) raw]
  show ?thesis
  proof (cases "view_of p")
    case (ViewPublish i)
    with types raw assms window_inv_insert_raw [of w C2BPublishSent raw i] show ?thesis
      by (simp add: track_c2b_view insert_c2b_raw_def)
  next
    case (ViewRelease i)
    with types raw assms window_inv_insert_raw [of w C2BPubrelSent raw i] show ?thesis
      by (simp add: track_c2b_view c2b_transition_def insert_c2b_raw_def)
  qed (use assms in \<open>simp_all add: track_c2b_view inv_intros\<close>)
qed

lemma track_b2c_inv:
  assumes "encode_headers C" and "packet_ok p" and "encodable C p" and "window_inv w"
  shows "\<exists>w'. track_b2c C w p = Inr w' \<and> window_inv w'"
proof -
  obtain raw where raw: "encode_raw C p = Inr raw" using assms(3) by (auto simp: encodable_def)
  show ?thesis
  proof (cases "view_of p")
    case (ViewPublish i)
    with encode_raw_view [OF assms(1) raw]
    have "entry_ok {B2CPublishSent, B2CPubrecForwarded} (B2CPublishSent, raw)"
      by (simp add: entry_ok_def)
    with ViewPublish raw assms show ?thesis
      by (simp add: track_b2c_view window_inv_def table_ok_insert)
  qed (use assms in \<open>simp_all add: track_b2c_view inv_intros\<close>)
qed

lemma track_inv:
  "encode_headers C \<Longrightarrow> packet_ok (traffic_packet e) \<Longrightarrow> encodable C (traffic_packet e) \<Longrightarrow>
   window_inv w \<Longrightarrow> \<exists>w'. track C e w = Inr w' \<and> window_inv w'"
  by (cases e) (simp_all add: track_c2b_inv track_b2c_inv)

lemma track_all_inv:
  assumes "encode_headers C" and "window_inv w" and "traffic_ok C es"
  shows "\<exists>w'. track_all C es w = Inr w' \<and> window_inv w'"
  unfolding track_all_def using assms
  by (intro rfold_invariant) (auto simp: traffic_ok_def intro: track_inv)

section \<open>Retransmissions\<close>

definition set_dup :: "bytes \<Rightarrow> bytes" where
  "set_dup raw = (case raw of [] \<Rightarrow> [] | b # bs \<Rightarrow> (b OR DUP_FLAG) # bs)"

lemma with_dup_eq: "raw \<noteq> [] \<Longrightarrow> with_dup raw = Inr (set_dup raw)"
  by (cases raw) (simp_all add: with_dup_def set_dup_def)

lemma resent_set_dup: "raw \<noteq> [] \<Longrightarrow> resent True raw (set_dup raw)"
  by (cases raw) (simp_all add: resent_def set_dup_def DUP_FLAG_def bit_set_dup)

lemma resent_same: "raw \<noteq> [] \<Longrightarrow> resent False raw raw"
  by (simp add: resent_def)

lemma set_dup_Nil [simp]: "set_dup raw = [] \<longleftrightarrow> raw = []"
  by (cases raw) (simp_all add: set_dup_def)

text \<open>Setting the DUP bit does not change the packet type.\<close>

lemma type_nibble_set_dup [simp]: "type_nibble (set_dup raw) = type_nibble raw"
proof (cases raw)
  case (Cons b bs)
  have "drop_bit 4 (b OR 8) = (drop_bit 4 b :: u8)"
    by (rule bit_eqI) (simp add: bit_drop_bit_eq bit_or_iff bit_8_u8)
  with Cons show ?thesis by (simp add: set_dup_def DUP_FLAG_def)
qed (simp add: set_dup_def)

lemma broker_retransmits_eq:
  assumes "window_inv w"
  shows "broker_retransmits w =
    Inr (map (\<lambda>(_, st, raw). if st = C2BPublishSent then set_dup raw else raw) (c2b w))"
  unfolding broker_retransmits_def
proof (rule rmap_Inr)
  fix e assume "e \<in> set (c2b w)"
  with assms have "entry_ok {C2BPublishSent, C2BPubrelSent} (snd e)"
    by (simp add: window_inv_def table_ok_def)
  then show "(case e of (_, st, raw) \<Rightarrow> case st of C2BPublishSent \<Rightarrow> with_dup raw
      | C2BPubrelSent \<Rightarrow> Inr raw | _ \<Rightarrow> Inl (Panicked ''c2b window holds only c2b states'')) =
    Inr (case e of (_, st, raw) \<Rightarrow> if st = C2BPublishSent then set_dup raw else raw)"
    by (auto simp: entry_ok_def with_dup_eq type_nibble_nonempty split: prod.splits)
qed

lemma client_retransmits_eq:
  assumes "window_inv w"
  shows "client_retransmits w =
    Inr (map (\<lambda>e. set_dup (snd (snd e))) (filter (\<lambda>e. fst (snd e) = B2CPublishSent) (b2c w)))"
proof -
  let ?g = "\<lambda>e :: u16 \<times> (window_state \<times> bytes).
    if fst (snd e) = B2CPublishSent then Some (set_dup (snd (snd e))) else None"
  have "rmap (\<lambda>(_, st, raw). case st of
       B2CPublishSent \<Rightarrow> rbind (with_dup raw) (\<lambda>r. Inr (Some r))
     | B2CPubrecForwarded \<Rightarrow> Inr None
     | _ \<Rightarrow> Inl (Panicked ''b2c window holds only b2c states'')) (b2c w) = Inr (map ?g (b2c w))"
  proof (rule rmap_Inr)
    fix e assume "e \<in> set (b2c w)"
    with assms have "entry_ok {B2CPublishSent, B2CPubrecForwarded} (snd e)"
      by (simp add: window_inv_def table_ok_def)
    then show "(case e of (_, st, raw) \<Rightarrow> case st of
         B2CPublishSent \<Rightarrow> rbind (with_dup raw) (\<lambda>r. Inr (Some r))
       | B2CPubrecForwarded \<Rightarrow> Inr None
       | _ \<Rightarrow> Inl (Panicked ''b2c window holds only b2c states'')) = Inr (?g e)"
      by (auto simp: entry_ok_def with_dup_eq type_nibble_nonempty split: prod.splits)
  qed
  moreover have "List.map_filter (\<lambda>r. r) (map ?g v) =
      map (\<lambda>e. set_dup (snd (snd e))) (filter (\<lambda>e. fst (snd e) = B2CPublishSent) v)" for v
    by (induction v) (simp_all add: List.map_filter_simps)
  ultimately show ?thesis by (simp add: client_retransmits_def)
qed

lemma list_all2_resent:
  assumes "\<And>e. e \<in> set v \<Longrightarrow> resent (d e) (snd (snd e)) (f e)"
  shows "list_all2 (\<lambda>e r. resent (d e) (snd (snd e)) r) v (map f v)"
  using assms by (simp add: list_all2_map2 list.rel_refl_strong)

lemma window_raw_nonempty:
  "window_inv w \<Longrightarrow> (k, st, raw) \<in> set (c2b w) \<Longrightarrow> raw \<noteq> []"
  "window_inv w \<Longrightarrow> (k, st, raw) \<in> set (b2c w) \<Longrightarrow> raw \<noteq> []"
  by (auto simp: window_inv_def table_ok_def entry_ok_def dest!: bspec type_nibble_nonempty)

section \<open>Snapshots\<close>

lemma restore_entry_entry_of:
  "restore_entry (entry_of (k, st, raw)) w =
   (if st \<in> {C2BPublishSent, C2BPubrelSent} then w\<lparr>c2b := vec_insert (c2b w) k (st, raw)\<rparr>
    else w\<lparr>b2c := vec_insert (b2c w) k (st, raw)\<rparr>)"
  by (simp add: restore_entry_def entry_of_def)

lemma fold_restore_c2b:
  "(\<And>e. e \<in> set es \<Longrightarrow> fst (snd e) \<in> {C2BPublishSent, C2BPubrelSent}) \<Longrightarrow>
   fold restore_entry (map entry_of es) w =
   w\<lparr>c2b := fold (\<lambda>(k, e) v. vec_insert v k e) es (c2b w)\<rparr>"
proof (induction es arbitrary: w)
  case (Cons e es)
  obtain k st raw where e: "e = (k, st, raw)" by (cases e)
  have "st \<in> {C2BPublishSent, C2BPubrelSent}" using Cons.prems [of e] e by simp
  with Cons e show ?case by (simp add: restore_entry_entry_of)
qed simp

lemma fold_restore_b2c:
  "(\<And>e. e \<in> set es \<Longrightarrow> fst (snd e) \<in> {B2CPublishSent, B2CPubrecForwarded}) \<Longrightarrow>
   fold restore_entry (map entry_of es) w =
   w\<lparr>b2c := fold (\<lambda>(k, e) v. vec_insert v k e) es (b2c w)\<rparr>"
proof (induction es arbitrary: w)
  case (Cons e es)
  obtain k st raw where e: "e = (k, st, raw)" by (cases e)
  have "st \<notin> {C2BPublishSent, C2BPubrelSent}" using Cons.prems [of e] e by auto
  with Cons e show ?case by (simp add: restore_entry_entry_of)
qed simp

lemma from_snapshot_snapshot:
  assumes "window_inv w"
  shows "from_snapshot (snapshot w) = w"
proof -
  have d: "wv.wf (c2b w)" "wv.wf (b2c w)"
    using assms by (simp_all add: window_inv_def table_ok_def wv_views)
  have up: "fold restore_entry (map entry_of (c2b w)) windows_new = windows_new\<lparr>c2b := c2b w\<rparr>"
    using assms fold_restore_c2b [of "c2b w" windows_new] wv.rebuild [OF d(1)]
    by (simp add: window_inv_def table_ok_def entry_ok_def windows_new_def)
  have "fold restore_entry (map entry_of (b2c w)) (windows_new\<lparr>c2b := c2b w\<rparr>) =
      windows_new\<lparr>c2b := c2b w, b2c := b2c w\<rparr>"
    using assms fold_restore_b2c [of "b2c w" "windows_new\<lparr>c2b := c2b w\<rparr>"] wv.rebuild [OF d(2)]
    by (simp add: window_inv_def table_ok_def entry_ok_def windows_new_def)
  with up show ?thesis by (simp add: from_snapshot_def snapshot_def windows_new_def)
qed

section \<open>Refinement of the ledger\<close>

lemma ledger_b2c_transition:
  assumes "window_inv w"
  shows "map_of (b2c (b2c_transition w i st)) =
    (case map_of (b2c w) i of None \<Rightarrow> map_of (b2c w)
     | Some e \<Rightarrow> (map_of (b2c w))(i \<mapsto> (st, snd e)))"
proof (cases "i \<in> fst ` set (b2c w)")
  case True
  have d: "distinct (map fst (b2c w))" using assms by (simp add: window_inv_def table_ok_def)
  show ?thesis
    using map_of_modify [of i "\<lambda>e. (st, snd e)" "b2c w"]
    by (simp add: b2c_transition_def vec_get_mut_Some [OF d True])
next
  case False
  then have "map_of (b2c w) i = None" by (simp add: map_of_eq_None_iff)
  with False show ?thesis by (simp add: b2c_transition_def vec_get_mut_None)
qed

lemma map_of_vec_insert:
  "distinct (map fst v) \<Longrightarrow> map_of (vec_insert v i e) = (map_of v)(i \<mapsto> e)"
  using wv.lookup_upd by (simp add: wv_views)

lemma map_of_vec_remove: "map_of (vec_remove v i) = (map_of v)(i := None)"
  using wv.lookup_del by (simp add: wv_views)

lemmas ledger_simps =
  ledger_of_def map_of_vec_insert map_of_vec_remove remove_b2c_def remove_c2b_def

lemma vec_contains_map_of: "vec_contains v i \<longleftrightarrow> map_of v i \<noteq> None"
  by (simp add: vec_contains_iff map_of_eq_None_iff)

lemma b2c_transition_c2b [simp]: "c2b (b2c_transition w i st) = c2b w"
  by (simp add: b2c_transition_def split: option.splits)

lemma track_ledger:
  assumes "window_inv w" and "packet_ok (traffic_packet e)" and "encodable C (traffic_packet e)"
    and "track C e w = Inr w'"
  shows "ledger_of w' = ledger_event C e (ledger_of w)"
proof -
  have d: "distinct (map fst (c2b w))" "distinct (map fst (b2c w))"
    using assms(1) by (simp_all add: window_inv_def table_ok_def)
  obtain raw where raw: "encode_raw C (traffic_packet e) = Inr raw"
    using assms(3) by (auto simp: encodable_def)
  then have enc: "encoding C (traffic_packet e) = raw" by (simp add: encoding_def)
  show ?thesis
  proof (cases e)
    case (FromClient p)
    with assms raw enc d show ?thesis
      by (cases "view_of p")
        (auto simp: track_c2b_view ledger_simps ledger_b2c_transition c2b_transition_def
          vec_contains_map_of split: if_splits)
  next
    case (FromBroker p)
    with assms raw enc d show ?thesis
      by (cases "view_of p") (auto simp: track_b2c_view ledger_simps)
  qed
qed

lemma vec_keys:
  "distinct (map fst v) \<Longrightarrow>
   map fst (vec_insert v i e) = (if vec_contains v i then map fst v else map fst v @ [i])"
  "map fst (vec_remove v i) = filter (\<lambda>j. j \<noteq> i) (map fst v)"
  using wv.keys_upd [where t = v] wv.keys_del [where t = v]
  by (simp_all add: wv_views vec_contains_iff)

lemma b2c_transition_keys:
  assumes "window_inv w"
  shows "map fst (b2c (b2c_transition w i st)) = map fst (b2c w)"
proof (cases "i \<in> fst ` set (b2c w)")
  case True
  have d: "distinct (map fst (b2c w))" using assms by (simp add: window_inv_def table_ok_def)
  show ?thesis by (simp add: b2c_transition_def vec_get_mut_Some [OF d True])
qed (simp add: b2c_transition_def vec_get_mut_None)

lemma track_order:
  assumes "window_inv w" and "packet_ok (traffic_packet e)" and "encodable C (traffic_packet e)"
    and "track C e w = Inr w'"
  shows "map fst (c2b w') = slot opens_up closes_up e (map fst (c2b w)) \<and>
    map fst (b2c w') = slot opens_down closes_down e (map fst (b2c w))"
proof -
  have d: "distinct (map fst (c2b w))" "distinct (map fst (b2c w))"
    using assms(1) by (simp_all add: window_inv_def table_ok_def)
  obtain raw where raw: "encode_raw C (traffic_packet e) = Inr raw"
    using assms(3) by (auto simp: encodable_def)
  have mem: "i \<in> set (map fst v) \<longleftrightarrow> vec_contains v i" for i and v :: window_vec
    by (simp add: vec_contains_iff)
  show ?thesis
  proof (cases e)
    case (FromClient p)
    with assms raw d show ?thesis
      by (cases "view_of p")
        (auto simp: track_c2b_view c2b_transition_def vec_keys mem remove_b2c_def slot_def
          b2c_transition_keys simp del: set_map split: if_splits)
  next
    case (FromBroker p)
    with assms raw d show ?thesis
      by (cases "view_of p")
        (auto simp: track_b2c_view vec_keys mem remove_c2b_def slot_def simp del: set_map)
  qed
qed

lemma no_reuse_slots:
  "no_reuse opens closes es ids \<Longrightarrow>
   fold (slot opens closes) es ids = fold (arrival opens closes) es ids"
proof (induction es arbitrary: ids)
  case (Cons e es)
  then have "slot opens closes e ids = arrival opens closes e ids"
    by (auto simp: slot_def arrival_def split: option.splits)
  with Cons show ?case by simp
qed simp

text \<open>The ledger and the order lift to whole conversations, with the invariant.\<close>

lemma track_all_refines:
  assumes "encode_headers C" and "traffic_ok C es" and "window_inv w"
  shows "\<exists>w'. track_all C es w = Inr w' \<and> window_inv w' \<and>
    ledger_of w' = fold (ledger_event C) es (ledger_of w) \<and>
    map fst (c2b w') = fold (slot opens_up closes_up) es (map fst (c2b w)) \<and>
    map fst (b2c w') = fold (slot opens_down closes_down) es (map fst (b2c w))"
  using assms(2,3)
proof (induction es arbitrary: w)
  case Nil
  then show ?case by (simp add: track_all_def)
next
  case (Cons e es)
  then have ok: "packet_ok (traffic_packet e)" "encodable C (traffic_packet e)" "traffic_ok C es"
    by (simp_all add: traffic_ok_def)
  obtain w1 where w1: "track C e w = Inr w1" "window_inv w1"
    using track_inv [OF assms(1) ok(1,2) Cons.prems(2)] by blast
  with Cons.IH [OF ok(3) w1(2)] track_ledger [OF Cons.prems(2) ok(1,2) w1(1)]
    track_order [OF Cons.prems(2) ok(1,2) w1(1)]
  show ?case by (auto simp: track_all_def)
qed

section \<open>Properties\<close>

lemma sample_encode_raw: "encodable sample_rmqtt (V3 p)" "encodable sample_rmqtt (V5 q)"
  by (simp_all add: encodable_def encode_raw_def expect_encoded_def sample_rmqtt_def
      sample_encode_def)

lemma sample_encoding: "packet_type p = Some t \<Longrightarrow> encoding sample_rmqtt p = [push_bit 4 t, 0]"
  by (auto simp: encoding_def encode_raw_def expect_encoded_def sample_rmqtt_def sample_encode_def
      packet_type_def split: mqtt_packet.splits v3_packet.splits v5_packet.splits)

text \<open>
  C9. Tracking is total. From an empty window, whatever decodable packets flow in both
  directions, no \<open>expect\<close>, \<open>unreachable!\<close> or index panics: every packet is tracked, the
  tables keep their invariant, and both retransmission lists can be built.
\<close>

theorem tracking_never_panics:
  assumes "encode_headers C" and "traffic_ok C es"
  shows "\<exists>w bs cs. track_all C es windows_new = Inr w \<and> window_inv w \<and>
    broker_retransmits w = Inr bs \<and> client_retransmits w = Inr cs"
  using track_all_inv [OF assms(1) window_inv_new assms(2)]
  by (auto simp: broker_retransmits_eq client_retransmits_eq)

theorem tracking_never_panics_witness:
  "\<exists>w bs cs. track_all sample_rmqtt
     [FromClient (sample_publish ExactlyOnce 7), FromBroker (V3 (V3PublishReceived 7))] windows_new
     = Inr w \<and> window_inv w \<and> broker_retransmits w = Inr bs \<and> client_retransmits w = Inr cs"
  by (rule tracking_never_panics [OF sample_headers])
    (simp add: traffic_ok_def sample_encode_raw sample_publish_def packet_ok_def publish_has_id_def)

lemma mqtt_view_accepting: "\<not> refuses fails p \<Longrightarrow> mqtt_view fails p = view_of p"
  by (simp add: mqtt_view_def split: qos_view.splits)

lemma mqtt_event_accepting:
  "\<forall>e \<in> set es. \<not> refuses fails (traffic_packet e) \<Longrightarrow>
   fold (mqtt_event C fails) es l = fold (ledger_event C) es l"
proof (induction es arbitrary: l)
  case (Cons e es)
  then have "mqtt_event C fails e l = ledger_event C e l"
    by (cases e) (simp_all add: mqtt_view_accepting)
  with Cons show ?case by simp
qed simp

text \<open>
  C10. The windows refine the ledger of the acknowledgement protocol. After any conversation in
  which no v5 PUBREC refuses its PUBLISH, each direction's table is, as a map, what the rules of
  both protocol versions leave open: a QoS 1 or 2 PUBLISH opens its identifier, a PUBREL of the
  client replaces its PUBLISH, a PUBREC of the client marks the broker's PUBLISH as received,
  PUBACK and PUBCOMP close the identifier.
\<close>

theorem windows_refine_ledger:
  assumes "encode_headers C" and "traffic_ok C es"
    and "\<forall>e \<in> set es. \<not> refuses fails (traffic_packet e)"
  shows "\<exists>w. track_all C es windows_new = Inr w \<and>
    ledger_of w = fold (mqtt_event C fails) es (Map.empty, Map.empty)"
  using track_all_refines [OF assms(1,2) window_inv_new]
  unfolding mqtt_event_accepting [OF assms(3)] by (auto simp: ledger_of_def windows_new_def)

theorem windows_refine_ledger_witness:
  "\<exists>w. track_all sample_rmqtt
     [FromClient (sample_publish AtLeastOnce 7), FromBroker (sample_publish AtLeastOnce 9),
      FromBroker (V3 (V3PublishAck 7))] windows_new = Inr w \<and>
    ledger_of w = (Map.empty, [9 \<mapsto> (B2CPublishSent, [48, 0])])"
proof -
  let ?es = "[FromClient (sample_publish AtLeastOnce 7), FromBroker (sample_publish AtLeastOnce 9),
      FromBroker (V3 (V3PublishAck 7))]"
  have "traffic_ok sample_rmqtt ?es"
    by (simp add: traffic_ok_def sample_encode_raw sample_publish_def packet_ok_def
        publish_has_id_def)
  moreover have "\<forall>e \<in> set ?es. \<not> refuses (\<lambda>a. True) (traffic_packet e)"
    by (simp add: refuses_def sample_publish_def)
  ultimately show ?thesis
    using windows_refine_ledger [OF sample_headers, of ?es "\<lambda>a. True"]
    by (simp add: sample_publish_def mqtt_view_def view_of_def publish_view_def encoding_def
        encode_raw_def expect_encoded_def sample_rmqtt_def sample_encode_def packet_type_def)
qed

text \<open>
  A refusing PUBREC is not taken for one: the refused PUBLISH stays in the window and would be
  resent, although the rules close the exchange.
\<close>

lemma refused_publish_is_kept:
  assumes "encode_headers C" and "window_inv w" and "packet_ok p" and "encodable C p"
    and "view_of p = ViewPublish i" and "fails a" and "ack_packet_id a = i"
  shows "\<exists>w'. track_all C [FromClient p, FromBroker (V5 (V5PublishReceived a))] w = Inr w' \<and>
    map_of (c2b w') i = Some (C2BPublishSent, encoding C p) \<and>
    fst (fold (mqtt_event C fails) [FromClient p, FromBroker (V5 (V5PublishReceived a))]
      (ledger_of w)) i = None"
proof -
  obtain w1 where w1: "track C (FromClient p) w = Inr w1"
    using track_inv [OF assms(1), of "FromClient p" w] assms(2-4) by auto
  have "ledger_of w1 = client_step (ViewPublish i) (encoding C p) (ledger_of w)"
    using track_ledger [OF assms(2) _ _ w1] assms(3-5) by simp
  moreover have "track C (FromBroker (V5 (V5PublishReceived a))) w1 = Inr w1"
    by (simp add: track_b2c_def)
  moreover have "\<not> refuses fails p" using assms(5) 
    by (auto simp: refuses_def view_of_def split: mqtt_packet.splits v5_packet.splits)
  ultimately show ?thesis
    using w1 assms(5-7) by (simp add: track_all_def ledger_of_def mqtt_view_accepting)
      (simp add: mqtt_view_def view_of_def refuses_def)
qed

text \<open>
  C11. Both windows are kept, and so replayed, in the order their exchanges were opened. The
  identifiers of each table are those of the open exchanges of its direction, a PUBLISH that
  repeats an open identifier and a PUBREL staying in the slot of the PUBLISH they follow; when
  no PUBLISH reuses an identifier that is still open, this is the order of arrival.
\<close>

theorem windows_keep_opening_order:
  assumes "encode_headers C" and "traffic_ok C es"
  shows "\<exists>w. track_all C es windows_new = Inr w \<and>
    map fst (c2b w) = fold (slot opens_up closes_up) es [] \<and>
    map fst (b2c w) = fold (slot opens_down closes_down) es [] \<and>
    (no_reuse opens_up closes_up es [] \<longrightarrow> map fst (c2b w) = fold (arrival opens_up closes_up) es []) \<and>
    (no_reuse opens_down closes_down es [] \<longrightarrow>
      map fst (b2c w) = fold (arrival opens_down closes_down) es [])"
  using track_all_refines [OF assms window_inv_new] no_reuse_slots [of opens_up closes_up es "[]"]
    no_reuse_slots [of opens_down closes_down es "[]"]
  by (auto simp: windows_new_def)

theorem windows_keep_opening_order_witness:
  "\<exists>w. track_all sample_rmqtt
     [FromClient (sample_publish ExactlyOnce 5), FromBroker (sample_publish AtLeastOnce 8),
      FromClient (sample_publish AtLeastOnce 3), FromBroker (sample_publish AtLeastOnce 2),
      FromClient (sample_publish AtLeastOnce 4), FromClient (V3 (V3PublishRelease 5)),
      FromBroker (V3 (V3PublishAck 3))] windows_new = Inr w \<and>
    map fst (c2b w) = [5, 4] \<and> map fst (b2c w) = [8, 2]"
proof -
  let ?es = "[FromClient (sample_publish ExactlyOnce 5), FromBroker (sample_publish AtLeastOnce 8),
      FromClient (sample_publish AtLeastOnce 3), FromBroker (sample_publish AtLeastOnce 2),
      FromClient (sample_publish AtLeastOnce 4), FromClient (V3 (V3PublishRelease 5)),
      FromBroker (V3 (V3PublishAck 3))]"
  have "traffic_ok sample_rmqtt ?es"
    by (simp add: traffic_ok_def sample_encode_raw sample_publish_def packet_ok_def
        publish_has_id_def)
  moreover have "no_reuse opens_up closes_up ?es []" "no_reuse opens_down closes_down ?es []"
    by (simp_all add: sample_publish_def view_of_def publish_view_def arrival_def)
  ultimately obtain w where "track_all sample_rmqtt ?es windows_new = Inr w"
    "map fst (c2b w) = fold (arrival opens_up closes_up) ?es []"
    "map fst (b2c w) = fold (arrival opens_down closes_down) ?es []"
    using windows_keep_opening_order [OF sample_headers, of ?es] by metis
  then show ?thesis
    by (intro exI [of _ w]) (simp add: sample_publish_def view_of_def publish_view_def arrival_def)
qed

text \<open>
  C12. Retransmissions are exact. Toward the broker every window entry is resent, in order:
  a PUBLISH with only its DUP bit raised, a PUBREL unchanged. Toward the client exactly the
  publishes whose PUBREC has not been forwarded are resent, with the DUP bit raised.
\<close>

theorem retransmits_exact:
  assumes "window_inv w"
  shows "\<exists>bs cs. broker_retransmits w = Inr bs \<and> client_retransmits w = Inr cs \<and>
    list_all2 (\<lambda>e r. resent (fst (snd e) = C2BPublishSent) (snd (snd e)) r) (c2b w) bs \<and>
    list_all2 (\<lambda>e r. resent True (snd (snd e)) r)
      (filter (\<lambda>e. fst (snd e) = B2CPublishSent) (b2c w)) cs"
proof -
  have "list_all2 (\<lambda>e r. resent (fst (snd e) = C2BPublishSent) (snd (snd e)) r) (c2b w)
      (map (\<lambda>(_, st, raw). if st = C2BPublishSent then set_dup raw else raw) (c2b w))"
    using assms by (intro list_all2_resent)
      (auto intro!: resent_set_dup resent_same dest: window_raw_nonempty)
  moreover have "list_all2 (\<lambda>e r. resent True (snd (snd e)) r)
      (filter (\<lambda>e. fst (snd e) = B2CPublishSent) (b2c w))
      (map (\<lambda>e. set_dup (snd (snd e))) (filter (\<lambda>e. fst (snd e) = B2CPublishSent) (b2c w)))"
    using assms by (intro list_all2_resent resent_set_dup) (auto dest: window_raw_nonempty)
  ultimately show ?thesis
    using assms by (simp add: broker_retransmits_eq client_retransmits_eq)
qed

definition sample_windows :: inflight_windows where
  "sample_windows = \<lparr>c2b = [(5, C2BPubrelSent, [98, 2, 0, 5]), (7, C2BPublishSent, [50, 1, 9])],
     b2c = [(4, B2CPubrecForwarded, [52, 0]), (2, B2CPublishSent, [50, 0])]\<rparr>"

lemma sample_windows_inv: "window_inv sample_windows"
  by (simp add: window_inv_def table_ok_def entry_ok_def sample_windows_def)

theorem retransmits_exact_witness:
  "broker_retransmits sample_windows = Inr [[98, 2, 0, 5], [58, 1, 9]] \<and>
   client_retransmits sample_windows = Inr [[58, 0]] \<and> resent True [50, 1, 9] [58, 1, 9]"
proof -
  have eqs: "broker_retransmits sample_windows = Inr [[98, 2, 0, 5], [58, 1, 9]]"
    "client_retransmits sample_windows = Inr [[58, 0]]"
    by (simp_all add: broker_retransmits_def client_retransmits_def sample_windows_def
        with_dup_def DUP_FLAG_def List.map_filter_simps)
  with retransmits_exact [OF sample_windows_inv] show ?thesis
    by (simp add: sample_windows_def)
qed

text \<open>
  C13. A window survives a handoff: restoring a snapshot gives back the very same tables, in
  the same order and in the same handshake states.
\<close>

theorem window_snapshot_roundtrip:
  assumes "window_inv w"
  shows "from_snapshot (snapshot w) = w"
  using assms by (rule from_snapshot_snapshot)

theorem window_snapshot_roundtrip_witness:
  "from_snapshot (snapshot sample_windows) = sample_windows \<and> length (snapshot sample_windows) = 4"
  using window_snapshot_roundtrip [OF sample_windows_inv]
  by (simp add: snapshot_def sample_windows_def)

text \<open>
  C14. A QoS 2 handshake leaves no trace. With a fresh identifier, PUBLISH, PUBREC, PUBREL and
  PUBCOMP bring the windows back to where they were; between PUBREL and PUBCOMP the PUBREL,
  not the PUBLISH, is what a thaw would resend.
\<close>

theorem qos2_handshake_closes:
  assumes "window_inv w" and "i \<notin> fst ` set (c2b w)"
    and "view_of pub = ViewPublish i" and "packet_ok pub" and "encodable C pub"
    and "view_of rec = ViewReceived i" and "packet_ok rec"
    and "view_of rel = ViewRelease i" and "packet_ok rel" and "encodable C rel"
    and "view_of cmp = ViewComplete i" and "packet_ok cmp"
  shows "track_all C [FromClient pub, FromBroker rec, FromClient rel] w =
      Inr (w\<lparr>c2b := c2b w @ [(i, C2BPubrelSent, encoding C rel)]\<rparr>) \<and>
    track_all C [FromClient pub, FromBroker rec, FromClient rel, FromBroker cmp] w = Inr w"
proof -
  have wf: "wv.wf (c2b w)" using assms(1) by (simp add: window_inv_def table_ok_def wv_views)
  have fresh: "i \<notin> set (wv.keys (c2b w))" using assms(2) by (simp add: wv_views)
  obtain r1 r2 where raws: "encode_raw C pub = Inr r1" "encode_raw C rel = Inr r2"
    using assms(5,10) by (auto simp: encodable_def)
  have snoc: "vec_insert (c2b w) i e = c2b w @ [(i, e)]" for e
    using assms(2) by (rule vec_insert_new)
  have over: "vec_insert (c2b w @ [(i, C2BPublishSent, r1)]) i (C2BPubrelSent, r2) =
      c2b w @ [(i, C2BPubrelSent, r2)]"
    using wv.upd_upd [OF wf, where k = i and v' = "(C2BPubrelSent, r2)" and v = "(C2BPublishSent, r1)"] by (simp add: snoc)
  have three: "track_all C [FromClient pub, FromBroker rec, FromClient rel] w =
      Inr (w\<lparr>c2b := c2b w @ [(i, C2BPubrelSent, encoding C rel)]\<rparr>)"
    using assms raws
    by (simp add: track_all_def track_c2b_view track_b2c_view c2b_transition_def
        vec_contains_iff snoc over encoding_def)
  have "vec_remove (c2b w @ [(i, C2BPubrelSent, r2)]) i = c2b w"
    using wv.del_upd_new [OF fresh, of "(C2BPubrelSent, r2)"] by (simp add: snoc)
  then have "track_all C [FromClient pub, FromBroker rec, FromClient rel, FromBroker cmp] w = Inr w"
    using assms raws
    by (simp add: track_all_def track_c2b_view track_b2c_view c2b_transition_def
        vec_contains_iff snoc over remove_c2b_def)
  with three show ?thesis ..
qed

theorem qos2_handshake_closes_witness:
  "track_all sample_rmqtt [FromClient (sample_publish ExactlyOnce 7), FromBroker (V3 (V3PublishReceived 7)),
     FromClient (V3 (V3PublishRelease 7)), FromBroker (V3 (V3PublishComplete 7))] windows_new
   = Inr windows_new"
  by (rule qos2_handshake_closes [where i = 7, THEN conjunct2])
    (simp_all add: window_inv_def sample_encode_raw sample_publish_def view_of_def
      publish_view_def packet_ok_def publish_has_id_def windows_new_def)

end
