(* ===== verification/Subscriptions.thy ===== *)
theory Subscriptions
  imports Codec Keyed_Table
begin

text \<open>
  The subscription table of a session (\<open>session/subscriptions.rs\<close>, with the entry type of
  \<open>registry.rs\<close>): an ordered table from topic filters to SUBSCRIBE option bytes, tracked
  from the client's packets and turned back into one SUBSCRIBE packet on reconnect. The
  theorems relate it to the map of active subscriptions an observer of the packets computes.
\<close>

section \<open>Data and operations\<close>

record subscription_entry =
  topic_filter :: string
  options :: u8

type_synonym subscriptions = "subscription_entry list"

definition upsert :: "string \<Rightarrow> u8 \<Rightarrow> subscriptions \<Rightarrow> subscriptions" where
  "upsert tf opts t =
     (case update_first (\<lambda>e. topic_filter e = tf) (\<lambda>e. e\<lparr>options := opts\<rparr>) t of
        Some t' \<Rightarrow> t'
      | None \<Rightarrow> t @ [\<lparr>topic_filter = tf, options = opts\<rparr>])"

definition sub_remove :: "string \<Rightarrow> subscriptions \<Rightarrow> subscriptions" where
  "sub_remove tf t = filter (\<lambda>e. topic_filter e \<noteq> tf) t"

text \<open>The options byte: QoS in bits 0-1, no-local 2, retain-as-published 3, retain handling 4-5.\<close>

definition options_byte :: "('x, 'c) rmqtt \<Rightarrow> 'x subscription_options \<Rightarrow> u8" where
  "options_byte C opts =
     qos_u8 C (so_qos opts)
     OR push_bit 2 (of_bool (so_no_local opts))
     OR push_bit 3 (of_bool (so_retain_as_published opts))
     OR push_bit 4 (rh_u8 C (so_retain_handling opts))"

definition sub_track :: "('x, 'c) rmqtt \<Rightarrow> 'x mqtt_packet \<Rightarrow> subscriptions \<Rightarrow> subscriptions" where
  "sub_track C packet t =
     (case packet of
        V3 p3 \<Rightarrow>
          (case p3 of
             V3Subscribe pid topic_filters \<Rightarrow>
               fold (\<lambda>(tf, q). upsert tf (qos_u8 C q)) topic_filters t
           | V3Unsubscribe pid topic_filters r \<Rightarrow> fold sub_remove topic_filters t
           | _ \<Rightarrow> t)
      | V5 p5 \<Rightarrow>
          (case p5 of
             V5Subscribe s \<Rightarrow>
               fold (\<lambda>(tf, opts). upsert tf (options_byte C opts)) (sub_topic_filters s) t
           | V5Unsubscribe u \<Rightarrow> fold sub_remove (unsub_topic_filters u) t
           | _ \<Rightarrow> t)
      | Version v \<Rightarrow> t)"

definition options_qos :: "('x, 'c) rmqtt \<Rightarrow> u8 \<Rightarrow> qos" where
  "options_qos C b =
     (case qos_try_from C (b AND 3) of Some q \<Rightarrow> q | None \<Rightarrow> AtMostOnce)"

definition options_v5 :: "('x, 'c) rmqtt \<Rightarrow> u8 \<Rightarrow> 'x subscription_options" where
  "options_v5 C b = \<lparr>
     so_qos = options_qos C b,
     so_no_local = (b AND 4 \<noteq> 0),
     so_retain_as_published = (b AND 8 \<noteq> 0),
     so_retain_handling =
       (case rh_try_from C (drop_bit 4 b) of Some r \<Rightarrow> r | None \<Rightarrow> AtSubscribe)\<rparr>"

definition resubscribe_packet ::
  "('x, 'c) rmqtt \<Rightarrow> protocol_version \<Rightarrow> subscriptions \<Rightarrow> 'x mqtt_packet option" where
  "resubscribe_packet C version t =
     (if t = [] then None
      else Some (case version of
        MQTT3 \<Rightarrow> V3 (V3Subscribe 1 (map (\<lambda>e. (topic_filter e, options_qos C (options e))) t))
      | MQTT5 \<Rightarrow> V5 (V5Subscribe \<lparr>
          sub_packet_id = 1,
          sub_id = None,
          sub_user_properties = [],
          sub_topic_filters = map (\<lambda>e. (topic_filter e, options_v5 C (options e))) t\<rparr>)))"

section \<open>Specification\<close>

text \<open>The active subscriptions after a packet, as the MQTT rules define them.\<close>

definition active_v3 :: "'x mqtt_packet \<Rightarrow> (string \<rightharpoonup> qos) \<Rightarrow> (string \<rightharpoonup> qos)" where
  "active_v3 p m = (case p of
      V3 (V3Subscribe pid fs) \<Rightarrow> fold (\<lambda>(tf, q) m. m(tf \<mapsto> q)) fs m
    | V3 (V3Unsubscribe pid fs r) \<Rightarrow> fold (\<lambda>tf m. m(tf := None)) fs m
    | _ \<Rightarrow> m)"

definition active_v5 :: "'x mqtt_packet \<Rightarrow> (string \<rightharpoonup> 'x subscription_options) \<Rightarrow>
    (string \<rightharpoonup> 'x subscription_options)" where
  "active_v5 p m = (case p of
      V5 (V5Subscribe s) \<Rightarrow> fold (\<lambda>(tf, opts) m. m(tf \<mapsto> opts)) (sub_topic_filters s) m
    | V5 (V5Unsubscribe u) \<Rightarrow> fold (\<lambda>tf m. m(tf := None)) (unsub_topic_filters u) m
    | _ \<Rightarrow> m)"

fun of_version :: "protocol_version \<Rightarrow> 'x mqtt_packet \<Rightarrow> bool" where
  "of_version MQTT3 (V3 p) = True"
| "of_version MQTT5 (V5 p) = True"
| "of_version v p = False"

text \<open>The topic filters a SUBSCRIBE packet asks for.\<close>

fun v3_filters :: "'x mqtt_packet option \<Rightarrow> (string \<times> qos) list" where
  "v3_filters (Some (V3 (V3Subscribe pid fs))) = fs"
| "v3_filters p = []"

fun v5_filters :: "'x mqtt_packet option \<Rightarrow> (string \<times> 'x subscription_options) list" where
  "v5_filters (Some (V5 (V5Subscribe s))) = sub_topic_filters s"
| "v5_filters p = []"

section \<open>The table is an ordered table\<close>

definition sub_entries :: "subscriptions \<Rightarrow> (string \<times> u8) list" where
  "sub_entries t = map (\<lambda>e. (topic_filter e, options e)) t"

lemma sub_entries_keys: "fst ` set (sub_entries t) = topic_filter ` set t"
  by (auto simp: sub_entries_def image_iff)

lemma sub_entries_distinct: "distinct (map fst (sub_entries t)) \<longleftrightarrow> distinct (map topic_filter t)"
  by (simp add: sub_entries_def comp_def)

lemma upsert_new: "tf \<notin> topic_filter ` set t \<Longrightarrow>
    upsert tf b t = t @ [\<lparr>topic_filter = tf, options = b\<rparr>]"
proof -
  assume "tf \<notin> topic_filter ` set t"
  then have "update_first (\<lambda>e. topic_filter e = tf) (\<lambda>e. e\<lparr>options := b\<rparr>) t = None"
    by (auto simp: update_first_None)
  then show ?thesis by (simp add: upsert_def)
qed

lemma upsert_old:
  assumes "distinct (map topic_filter t)" and "tf \<in> topic_filter ` set t"
  shows "upsert tf b t = map (\<lambda>e. if topic_filter e = tf then e\<lparr>options := b\<rparr> else e) t"
proof -
  have "\<exists>e \<in> set t. topic_filter e = tf" using assms(2) by auto
  from update_first_distinct [OF assms(1) this] show ?thesis by (simp add: upsert_def)
qed

interpretation st: keyed_table "[]" upsert sub_remove sub_entries
proof
  show "sub_entries [] = []" by (simp add: sub_entries_def)
next
  fix t u assume "sub_entries t = sub_entries u"
  moreover have "inj (\<lambda>e :: subscription_entry. (topic_filter e, options e))"
    by (rule injI) simp
  ultimately show "t = u" by (simp add: sub_entries_def inj_map_eq_map)
next
  fix k t v assume "k \<notin> fst ` set (sub_entries t)"
  then show "sub_entries (upsert k v t) = sub_entries t @ [(k, v)]"
    by (simp add: sub_entries_keys upsert_new) (simp add: sub_entries_def)
next
  fix t k v assume "distinct (map fst (sub_entries t))" and "k \<in> fst ` set (sub_entries t)"
  then have "upsert k v t = map (\<lambda>e. if topic_filter e = k then e\<lparr>options := v\<rparr> else e) t"
    by (simp add: sub_entries_keys sub_entries_distinct upsert_old)
  then show "sub_entries (upsert k v t) =
      map (\<lambda>e. if fst e = k then (k, v) else e) (sub_entries t)"
    by (auto simp: sub_entries_def)
next
  fix k t
  show "sub_entries (sub_remove k t) = filter (\<lambda>e. fst e \<noteq> k) (sub_entries t)"
    by (simp add: sub_entries_def sub_remove_def filter_map comp_def)
qed

section \<open>Option bytes\<close>

lemma bit_options_byte:
  "bit (options_byte C opts) n \<longleftrightarrow>
   bit (qos_u8 C (so_qos opts)) n \<or> so_no_local opts \<and> n = 2 \<or>
   so_retain_as_published opts \<and> n = 3 \<or> 4 \<le> n \<and> n < 8 \<and> bit (rh_u8 C (so_retain_handling opts)) (n - 4)"
  by (auto simp: options_byte_def bit_or_iff bit_push_bit_iff bit_of_bool_iff)

lemma enum_bits:
  assumes "enum_laws C"
  shows "bit (qos_u8 C q) n \<Longrightarrow> n < 2" and "bit (rh_u8 C r) n \<Longrightarrow> n < 4"
  using assms bit_small [of "qos_u8 C q" 2 n] bit_small [of "rh_u8 C r" 4 n]
  by (auto simp: enum_laws_def)

lemma bit_3_u8: "bit (3 :: u8) n \<longleftrightarrow> n < 2"
proof -
  have "(3 :: u8) = mask 2" by (simp add: mask_eq_exp_minus_1)
  then show ?thesis by (simp only: bit_mask_iff) auto
qed

lemma and_flag: "((b :: u8) AND 4 \<noteq> 0) = bit b 2" "((b :: u8) AND 8 \<noteq> 0) = bit b 3"
proof -
  have "(4 :: u8) = 2 ^ 2" "(8 :: u8) = 2 ^ 3" by simp_all
  then show "((b :: u8) AND 4 \<noteq> 0) = bit b 2" "((b :: u8) AND 8 \<noteq> 0) = bit b 3"
    by (simp_all only: and_exp_eq_0_iff_not_bit not_not)
qed

lemma options_byte_parts:
  assumes "enum_laws C"
  shows "options_byte C opts AND 3 = qos_u8 C (so_qos opts)"
    and "drop_bit 4 (options_byte C opts) = rh_u8 C (so_retain_handling opts)"
proof -
  show "options_byte C opts AND 3 = qos_u8 C (so_qos opts)"
    by (rule bit_eqI)
      (use enum_bits(1) [OF assms] in \<open>auto simp only: bit_and_iff bit_3_u8 bit_options_byte\<close>)
  show "drop_bit 4 (options_byte C opts) = rh_u8 C (so_retain_handling opts)"
    by (rule bit_eqI)
      (use enum_bits [OF assms] in \<open>fastforce simp: bit_drop_bit_eq bit_options_byte\<close>)
qed

lemma options_qos_byte: "enum_laws C \<Longrightarrow> options_qos C (options_byte C opts) = so_qos opts"
  by (simp add: options_qos_def options_byte_parts enum_laws_def)

lemma options_v5_byte:
  assumes "enum_laws C"
  shows "options_v5 C (options_byte C opts) = opts"
proof -
  have "\<not> bit (qos_u8 C (so_qos opts)) 2" "\<not> bit (qos_u8 C (so_qos opts)) 3"
    using enum_bits(1) [OF assms] by fastforce+
  moreover have "rh_try_from C (rh_u8 C (so_retain_handling opts)) = Some (so_retain_handling opts)"
    using assms by (simp add: enum_laws_def)
  ultimately show ?thesis
    using assms
    by (simp add: options_v5_def options_qos_byte and_flag bit_options_byte options_byte_parts)
qed

lemma options_qos_v3:
  assumes "enum_laws C"
  shows "options_qos C (qos_u8 C q) = q"
proof -
  have "qos_u8 C q AND 3 = qos_u8 C q"
    by (rule bit_eqI) (use enum_bits(1) [OF assms] in \<open>auto simp only: bit_and_iff bit_3_u8\<close>)
  with assms show ?thesis by (simp add: options_qos_def enum_laws_def)
qed

section \<open>Tracking follows the specification\<close>

text \<open>
  The table represents a map of subscriptions when it holds exactly its filters, with the
  option bytes of their options, and no filter twice.
\<close>

definition represents :: "('o \<Rightarrow> u8) \<Rightarrow> subscriptions \<Rightarrow> (string \<rightharpoonup> 'o) \<Rightarrow> bool" where
  "represents enc t m \<longleftrightarrow> st.wf t \<and> st.lookup t = (\<lambda>tf. map_option enc (m tf))"

lemma represents_empty: "represents enc [] Map.empty"
  by (simp add: represents_def st.wf_empty st.lookup_empty)

lemma represents_upsert:
  "represents enc t m \<Longrightarrow> represents enc (upsert tf (enc v) t) (m(tf \<mapsto> v))"
  by (auto simp: represents_def st.wf_upd st.lookup_upd)

lemma represents_remove: "represents enc t m \<Longrightarrow> represents enc (sub_remove tf t) (m(tf := None))"
  by (auto simp: represents_def st.wf_del st.lookup_del)

lemma represents_upserts:
  "represents enc t m \<Longrightarrow>
   represents enc (fold (\<lambda>(tf, v). upsert tf (enc v)) fs t) (fold (\<lambda>(tf, v) m. m(tf \<mapsto> v)) fs m)"
  by (induction fs arbitrary: t m) (auto simp: represents_upsert)

lemma represents_removes:
  "represents enc t m \<Longrightarrow>
   represents enc (fold sub_remove fs t) (fold (\<lambda>tf m. m(tf := None)) fs m)"
  by (induction fs arbitrary: t m) (auto simp: represents_remove)

lemma represents_track_v3:
  "of_version MQTT3 p \<Longrightarrow> represents (qos_u8 C) t m \<Longrightarrow>
   represents (qos_u8 C) (sub_track C p t) (active_v3 p m)"
  by (cases p)
    (auto simp: sub_track_def active_v3_def represents_upserts represents_removes
      split: v3_packet.splits)

lemma represents_track_v5:
  "of_version MQTT5 p \<Longrightarrow> represents (options_byte C) t m \<Longrightarrow>
   represents (options_byte C) (sub_track C p t) (active_v5 p m)"
  by (cases p)
    (auto simp: sub_track_def active_v5_def represents_upserts represents_removes
      split: v5_packet.splits)

lemma represents_run:
  assumes "\<And>p t m. p \<in> set ps \<Longrightarrow> represents enc t m \<Longrightarrow>
      represents enc (sub_track C p t) (act p m)"
    and "represents enc t m"
  shows "represents enc (fold (sub_track C) ps t) (fold act ps m)"
  using assms by (induction ps arbitrary: t m) auto

lemma st_lookup: "st.lookup t = map_of (map (\<lambda>e. (topic_filter e, options e)) t)"
  unfolding st.lookup_def by (simp add: sub_entries_def)

lemma map_of_decode:
  "map_of (map (\<lambda>e. (topic_filter e, f (options e))) t) = (\<lambda>tf. map_option f (st.lookup t tf))"
  by (induction t) (auto simp: st_lookup)

lemma represents_decode:
  assumes "represents enc t m" and "\<And>v. dec (enc v) = v"
  shows "map_of (map (\<lambda>e. (topic_filter e, dec (options e))) t) = m"
  using assms by (simp add: map_of_decode represents_def option.map_comp comp_def option.map_ident)

lemma resubscribe_filters:
  "v3_filters (resubscribe_packet C MQTT3 t) =
     map (\<lambda>e. (topic_filter e, options_qos C (options e))) t"
  "v5_filters (resubscribe_packet C MQTT5 t) =
     map (\<lambda>e. (topic_filter e, options_v5 C (options e))) t"
  by (cases t; simp add: resubscribe_packet_def)+

text \<open>The packet built from a table that represents a map asks for exactly that map.\<close>

lemma represents_filters:
  assumes "represents enc t m" and "\<And>v. dec (enc v) = v"
    and "fs = map (\<lambda>e. (topic_filter e, dec (options e))) t"
  shows "map_of fs = m \<and> distinct (map fst fs) \<and> (t = [] \<longleftrightarrow> m = Map.empty)"
proof -
  have m: "map_of fs = m" using represents_decode [OF assms(1,2)] assms(3) by simp
  moreover have "distinct (map fst fs)"
    using assms(1,3) by (simp add: represents_def st.wf_def sub_entries_distinct comp_def)
  moreover have "t = [] \<longleftrightarrow> m = Map.empty"
    unfolding m [symmetric] by (simp add: assms(3) map_of_eq_empty_iff del: map_of_map)
  ultimately show ?thesis by blast
qed

lemma resubscribe_None: "resubscribe_packet C v t = None \<longleftrightarrow> t = []"
  by (simp add: resubscribe_packet_def)

section \<open>Properties\<close>

text \<open>
  C25. Re-subscribing restores the routing of an MQTT 5 session. Whatever SUBSCRIBE and
  UNSUBSCRIBE packets the client sent, the one SUBSCRIBE issued on reconnect asks, exactly
  once per filter, for the active subscriptions with the options last requested, and none
  is issued exactly when no subscription is active.
\<close>

theorem resubscribe_restores_v5:
  assumes "enum_laws C" and "list_all (of_version MQTT5) ps"
  shows "map_of (v5_filters (resubscribe_packet C MQTT5 (fold (sub_track C) ps []))) =
      fold active_v5 ps Map.empty \<and>
    distinct (map fst (v5_filters (resubscribe_packet C MQTT5 (fold (sub_track C) ps [])))) \<and>
    (resubscribe_packet C MQTT5 (fold (sub_track C) ps []) = None \<longleftrightarrow>
      fold active_v5 ps Map.empty = Map.empty)"
proof -
  have "represents (options_byte C) (fold (sub_track C) ps []) (fold active_v5 ps Map.empty)"
    using assms(2) by (intro represents_run represents_track_v5 represents_empty)
      (auto simp: list_all_iff)
  from represents_filters [OF this options_v5_byte [OF assms(1)] resubscribe_filters(2)]
  show ?thesis by (simp add: resubscribe_None)
qed

theorem resubscribe_restores_v5_witness:
  "map_of (v5_filters (resubscribe_packet sample_rmqtt MQTT5 (fold (sub_track sample_rmqtt)
     [V5 (V5Subscribe \<lparr>sub_packet_id = 9, sub_id = None, sub_user_properties = [],
        sub_topic_filters = [(''a/b'', \<lparr>so_qos = AtLeastOnce, so_no_local = True,
          so_retain_as_published = False, so_retain_handling = OtherRetainHandling ()\<rparr>)]\<rparr>)] []))) =
   [''a/b'' \<mapsto> \<lparr>so_qos = AtLeastOnce, so_no_local = True,
      so_retain_as_published = False, so_retain_handling = OtherRetainHandling ()\<rparr>]"
  by (subst resubscribe_restores_v5 [OF sample_enums, THEN conjunct1]) (simp_all add: active_v5_def)

text \<open>
  C26. Re-subscribing restores the routing of an MQTT 3.1.1 session: the same statement over
  filters and their QoS.
\<close>

theorem resubscribe_restores_v3:
  assumes "enum_laws C" and "list_all (of_version MQTT3) ps"
  shows "map_of (v3_filters (resubscribe_packet C MQTT3 (fold (sub_track C) ps []))) =
      fold active_v3 ps Map.empty \<and>
    distinct (map fst (v3_filters (resubscribe_packet C MQTT3 (fold (sub_track C) ps [])))) \<and>
    (resubscribe_packet C MQTT3 (fold (sub_track C) ps []) = None \<longleftrightarrow>
      fold active_v3 ps Map.empty = Map.empty)"
proof -
  have "represents (qos_u8 C) (fold (sub_track C) ps []) (fold active_v3 ps Map.empty)"
    using assms(2) by (intro represents_run represents_track_v3 represents_empty)
      (auto simp: list_all_iff)
  from represents_filters [OF this options_qos_v3 [OF assms(1)] resubscribe_filters(1)]
  show ?thesis by (simp add: resubscribe_None)
qed

theorem resubscribe_restores_v3_witness:
  "map_of (v3_filters (resubscribe_packet sample_rmqtt MQTT3 (fold (sub_track sample_rmqtt)
     [V3 (V3Subscribe 3 [(''x'', ExactlyOnce), (''y'', AtMostOnce)]),
      V3 (V3Unsubscribe 4 [''y''] ())] []))) = [''x'' \<mapsto> ExactlyOnce]"
  by (subst resubscribe_restores_v3 [OF sample_enums, THEN conjunct1]) (auto simp: active_v3_def)

end
