(* ===== verification/Outage.thy ===== *)
theory Outage
  imports Wire Window Subscriptions
begin

text \<open>
  Broker-outage handling (\<open>session/outage.rs\<close>): the bounded buffer of client packets owed to
  the broker, and the servicing of one client packet while the broker is unreachable. The
  function writes to the client only, through the wire model; its other effects are the new
  buffer, subscription table and windows.
\<close>

section \<open>Data and operations\<close>

definition BROKER_RETRY_INITIAL :: duration where
  "BROKER_RETRY_INITIAL = 100 * 1000000"

definition BROKER_RETRY_MAX :: duration where
  "BROKER_RETRY_MAX = 5 * 1000000000"

definition OUTAGE_BUFFER_MAX_BYTES :: nat where
  "OUTAGE_BUFFER_MAX_BYTES = 1024 * 1024"

record buffered_publish =
  bp_packet_id :: u16
  bp_raw :: bytes
  bp_qos :: u8

record outage_buffer =
  ob_entries :: "buffered_publish list"
  ob_bytes :: nat

definition outage_buffer_default :: outage_buffer where
  "outage_buffer_default = \<lparr>ob_entries = [], ob_bytes = 0\<rparr>"

definition outage_push ::
  "('x, 'c) rmqtt \<Rightarrow> outage_buffer \<Rightarrow> u16 \<Rightarrow> bytes \<Rightarrow> qos \<Rightarrow> outage_buffer res" where
  "outage_push C buf pid raw q =
     (if ob_bytes buf + length raw > OUTAGE_BUFFER_MAX_BYTES
      then Inl (IoError QuotaExceeded ''outage buffer full, closing session'')
      else Inr \<lparr>ob_entries = ob_entries buf @ [\<lparr>bp_packet_id = pid, bp_raw = raw, bp_qos = qos_u8 C q\<rparr>],
                ob_bytes = ob_bytes buf + length raw\<rparr>)"

text \<open>The mutable arguments of the service function, as one state.\<close>

record outage_state =
  os_buffer :: outage_buffer
  os_subscriptions :: subscriptions
  os_windows :: inflight_windows

definition is_client_ack :: "'x mqtt_packet \<Rightarrow> bool" where
  "is_client_ack packet = (case packet of
      V3 p3 \<Rightarrow> (case p3 of
          V3PublishAck i \<Rightarrow> True | V3PublishReceived i \<Rightarrow> True | V3PublishComplete i \<Rightarrow> True
        | _ \<Rightarrow> False)
    | V5 p5 \<Rightarrow> (case p5 of
          V5PublishAck a \<Rightarrow> True | V5PublishReceived a \<Rightarrow> True | V5PublishComplete a \<Rightarrow> True
        | _ \<Rightarrow> False)
    | Version v \<Rightarrow> False)"

definition buffer_packet :: "('x, 'c) rmqtt \<Rightarrow> 'x mqtt_packet \<Rightarrow> u16 \<Rightarrow> qos \<Rightarrow> outage_state \<Rightarrow>
    outage_state res" where
  "buffer_packet C packet pid q s =
     rbind (encode_raw C packet) (\<lambda>raw.
     rbind (outage_push C (os_buffer s) pid raw q) (\<lambda>b.
     Inr (s\<lparr>os_buffer := b\<rparr>)))"

definition buffer_publish :: "('x, 'c) rmqtt \<Rightarrow> 'x mqtt_packet \<Rightarrow> 'x publish \<Rightarrow> outage_state \<Rightarrow>
    outage_state res" where
  "buffer_publish C packet p s =
     rbind (encode_raw C packet) (\<lambda>raw.
     case pub_qos p of
       AtMostOnce \<Rightarrow> Inr s
     | _ \<Rightarrow> rbind (ok_or (Panicked ''QoS>0 PUBLISH has an id'') (pub_packet_id p)) (\<lambda>pid.
            rbind (outage_push C (os_buffer s) pid raw (pub_qos p)) (\<lambda>b.
            Inr (s\<lparr>os_buffer := b\<rparr>))))"

definition track_and_buffer :: "('x, 'c) rmqtt \<Rightarrow> 'x mqtt_packet \<Rightarrow> u16 \<Rightarrow> outage_state \<Rightarrow>
    outage_state res" where
  "track_and_buffer C packet pid s =
     buffer_packet C packet pid AtLeastOnce
       (s\<lparr>os_subscriptions := sub_track C packet (os_subscriptions s)\<rparr>)"

definition client_disconnected :: err where
  "client_disconnected = IoError UnexpectedEof ''client disconnected''"

definition service_outage_packet ::
  "('x, 'c) rmqtt \<Rightarrow> 'x mqtt_packet \<Rightarrow> outage_state \<Rightarrow> ('x, outage_state) io" where
  "service_outage_packet C packet s =
     (if is_client_ack packet
      then io_lift (rbind (track_c2b C (os_windows s) packet) (\<lambda>w. Inr (s\<lparr>os_windows := w\<rparr>)))
      else case packet of
        V3 p3 \<Rightarrow>
          (case p3 of
             V3Publish p \<Rightarrow> io_lift (buffer_publish C packet p s)
           | V3PublishRelease pid \<Rightarrow> io_lift (buffer_packet C packet pid ExactlyOnce s)
           | V3PingRequest \<Rightarrow> io_then (client_send (V3 V3PingResponse)) (io_return s)
           | V3Subscribe pid fs \<Rightarrow> io_lift (track_and_buffer C packet pid s)
           | V3Unsubscribe pid fs r \<Rightarrow> io_lift (track_and_buffer C packet pid s)
           | V3Disconnect \<Rightarrow> io_lift (Inl client_disconnected)
           | _ \<Rightarrow> io_return s)
      | V5 p5 \<Rightarrow>
          (case p5 of
             V5Publish p \<Rightarrow> io_lift (buffer_publish C packet p s)
           | V5PublishRelease ack \<Rightarrow>
               io_lift (buffer_packet C packet (ack_packet_id ack) ExactlyOnce s)
           | V5PingRequest \<Rightarrow> io_then (client_send (V5 V5PingResponse)) (io_return s)
           | V5Subscribe sub \<Rightarrow> io_lift (track_and_buffer C packet (sub_packet_id sub) s)
           | V5Unsubscribe u \<Rightarrow> io_lift (track_and_buffer C packet (unsub_packet_id u) s)
           | V5Disconnect d \<Rightarrow> io_lift (Inl client_disconnected)
           | _ \<Rightarrow> io_return s)
      | Version v \<Rightarrow> io_return s)"

section \<open>Specification\<close>

definition buffer_inv :: "outage_buffer \<Rightarrow> bool" where
  "buffer_inv b \<longleftrightarrow>
     ob_bytes b = sum_list (map (length \<circ> bp_raw) (ob_entries b)) \<and>
     ob_bytes b \<le> OUTAGE_BUFFER_MAX_BYTES \<and>
     (\<forall>e \<in> set (ob_entries b). type_nibble (bp_raw e) \<in> {Some 3, Some 6, Some 8, Some 10})"

text \<open>
  What the buffer owes the broker for a packet: identifier and delivery class of the packets
  that need the broker's answer; nothing for the others.
\<close>

definition owed_publish :: "'x publish \<Rightarrow> (u16 \<times> qos) option" where
  "owed_publish p =
     (if pub_qos p = AtMostOnce then None
      else map_option (\<lambda>i. (i, pub_qos p)) (pub_packet_id p))"

definition owed :: "'x mqtt_packet \<Rightarrow> (u16 \<times> qos) option" where
  "owed packet = (case packet of
      V3 p3 \<Rightarrow> (case p3 of
          V3Publish p \<Rightarrow> owed_publish p
        | V3PublishRelease i \<Rightarrow> Some (i, ExactlyOnce)
        | V3Subscribe i fs \<Rightarrow> Some (i, AtLeastOnce)
        | V3Unsubscribe i fs r \<Rightarrow> Some (i, AtLeastOnce)
        | _ \<Rightarrow> None)
    | V5 p5 \<Rightarrow> (case p5 of
          V5Publish p \<Rightarrow> owed_publish p
        | V5PublishRelease a \<Rightarrow> Some (ack_packet_id a, ExactlyOnce)
        | V5Subscribe s \<Rightarrow> Some (sub_packet_id s, AtLeastOnce)
        | V5Unsubscribe u \<Rightarrow> Some (unsub_packet_id u, AtLeastOnce)
        | _ \<Rightarrow> None)
    | Version v \<Rightarrow> None)"

definition owed_entries :: "('x, 'c) rmqtt \<Rightarrow> 'x mqtt_packet \<Rightarrow> buffered_publish list" where
  "owed_entries C packet = (case owed packet of
      None \<Rightarrow> []
    | Some (i, q) \<Rightarrow> [\<lparr>bp_packet_id = i, bp_raw = encoding C packet, bp_qos = qos_u8 C q\<rparr>])"

text \<open>The one packet the proxy answers by itself.\<close>

definition local_answer :: "'x mqtt_packet \<Rightarrow> 'x out list" where
  "local_answer packet = (case packet of
      V3 V3PingRequest \<Rightarrow> [SendPacket (V3 V3PingResponse)]
    | V5 V5PingRequest \<Rightarrow> [SendPacket (V5 V5PingResponse)]
    | _ \<Rightarrow> [])"

definition is_disconnect :: "'x mqtt_packet \<Rightarrow> bool" where
  "is_disconnect packet = (case packet of
      V3 V3Disconnect \<Rightarrow> True | V5 (V5Disconnect d) \<Rightarrow> True | _ \<Rightarrow> False)"

definition buffer_append :: "outage_buffer \<Rightarrow> buffered_publish list \<Rightarrow> outage_buffer" where
  "buffer_append b es =
     \<lparr>ob_entries = ob_entries b @ es,
      ob_bytes = ob_bytes b + sum_list (map (length \<circ> bp_raw) es)\<rparr>"

definition outage_inv :: "outage_state \<Rightarrow> bool" where
  "outage_inv s \<longleftrightarrow> buffer_inv (os_buffer s) \<and> window_inv (os_windows s)"

text \<open>A run of client packets through the outage phase.\<close>

fun service_run ::
  "('x, 'c) rmqtt \<Rightarrow> 'x mqtt_packet list \<Rightarrow> outage_state \<Rightarrow> ('x, outage_state) io" where
  "service_run C [] s = io_return s"
| "service_run C (p # ps) s = io_bind (service_outage_packet C p s) (service_run C ps)"

section \<open>Lemmas\<close>

lemmas packet_splits =
  mqtt_packet.splits v3_packet.splits v5_packet.splits

text \<open>
  The service function in one equation: acknowledgements go to the windows, everything owed
  is appended to the buffer if it fits, a PINGREQ is answered, a DISCONNECT ends the session.
\<close>

definition service_spec ::
  "('x, 'c) rmqtt \<Rightarrow> 'x mqtt_packet \<Rightarrow> outage_state \<Rightarrow> outage_state res" where
  "service_spec C packet s =
     (if is_disconnect packet then Inl client_disconnected
      else if is_client_ack packet
      then rbind (track_c2b C (os_windows s) packet) (\<lambda>w. Inr (s\<lparr>os_windows := w\<rparr>))
      else let b = buffer_append (os_buffer s) (owed_entries C packet)
           in if owed packet \<noteq> None \<and> ob_bytes b > OUTAGE_BUFFER_MAX_BYTES
              then Inl (IoError QuotaExceeded ''outage buffer full, closing session'')
              else Inr (s\<lparr>os_buffer := b,
                os_subscriptions := sub_track C packet (os_subscriptions s)\<rparr>))"

lemma buffer_append_Nil [simp]: "buffer_append b [] = b"
  by (simp add: buffer_append_def)

lemma buffer_packet_eq:
  assumes "encodable C p"
  shows "buffer_packet C p i q s =
    (let b = buffer_append (os_buffer s) [\<lparr>bp_packet_id = i, bp_raw = encoding C p, bp_qos = qos_u8 C q\<rparr>]
     in if ob_bytes b > OUTAGE_BUFFER_MAX_BYTES
        then Inl (IoError QuotaExceeded ''outage buffer full, closing session'')
        else Inr (s\<lparr>os_buffer := b\<rparr>))"
  using assms
  by (auto simp: buffer_packet_def encodable_def encoding_def outage_push_def buffer_append_def Let_def)

lemma buffer_publish_eq:
  assumes "encodable C packet" and "publish_has_id p"
  shows "buffer_publish C packet p s =
    (case owed_publish p of
       None \<Rightarrow> Inr s
     | Some (i, q) \<Rightarrow> buffer_packet C packet i q s)"
  using assms
  by (cases "pub_qos p")
    (auto simp: buffer_publish_def buffer_packet_def owed_publish_def encodable_def publish_has_id_def)

lemma sub_track_other:
  "sub_track C (V3 (V3Publish p)) t = t" "sub_track C (V5 (V5Publish p)) t = t"
  "sub_track C (V3 (V3PublishRelease i)) t = t" "sub_track C (V5 (V5PublishRelease a)) t = t"
  by (simp_all add: sub_track_def)

lemma service_eq_spec:
  assumes "packet_ok p" and "encodable C p" and "local_answer p = []"
  shows "service_outage_packet C p s w = (service_spec C p s, w)"
proof (cases p)
  case (V3 q)
  with assms show ?thesis
    by (cases q)
      (auto simp: service_outage_packet_def service_spec_def is_client_ack_def is_disconnect_def
        local_answer_def owed_def owed_entries_def packet_ok_def buffer_publish_eq buffer_packet_eq
        track_and_buffer_def sub_track_other Let_def sub_track_def split: option.splits)
next
  case (V5 q)
  with assms show ?thesis
    by (cases q)
      (auto simp: service_outage_packet_def service_spec_def is_client_ack_def is_disconnect_def
        local_answer_def owed_def owed_entries_def packet_ok_def buffer_publish_eq buffer_packet_eq
        track_and_buffer_def sub_track_other Let_def sub_track_def split: option.splits)
qed (use assms in \<open>simp add: packet_ok_def\<close>)

lemma service_ping:
  assumes "local_answer p \<noteq> []"
  shows "\<exists>q. local_answer p = [SendPacket q] \<and>
    service_outage_packet C p s = io_then (client_send q) (io_return s) \<and> service_spec C p s = Inr s"
  using assms
  by (auto simp: local_answer_def service_outage_packet_def service_spec_def is_client_ack_def
      is_disconnect_def owed_def owed_entries_def sub_track_def split: packet_splits)

lemma io_lift_Inr: "io_lift r w = (Inr s, w') \<longleftrightarrow> r = Inr s \<and> w' = w"
  by auto

lemma ping_run:
  "io_then (client_send q) (io_return s) w = (Inr s', w') \<Longrightarrow>
   s' = s \<and> client_log w' = client_log w @ [SendPacket q] \<and> broker_log w' = broker_log w"
  by (auto simp: io_then_eq_Inr client_send_def client_do_Inr)

text \<open>What one serviced packet puts on the wire, for any packet at all.\<close>

lemma service_log:
  assumes "service_outage_packet C p s w = (Inr s', w')"
  shows "client_log w' = client_log w @ local_answer p \<and> broker_log w' = broker_log w"
  using assms
  by (cases p)
    (auto simp: service_outage_packet_def local_answer_def is_client_ack_def io_lift_Inr
      dest!: ping_run split: v3_packet.splits v5_packet.splits)

lemma owed_entries_type:
  assumes "encode_headers C" and "encodable C p" and "e \<in> set (owed_entries C p)"
  shows "type_nibble (bp_raw e) \<in> {Some 3, Some 6, Some 8, Some 10}"
proof -
  obtain raw where raw: "encode_raw C p = Inr raw" using assms(2) by (auto simp: encodable_def)
  have "owed p \<noteq> None" using assms(3) by (cases "owed p") (simp_all add: owed_entries_def)
  then have "packet_type p \<in> {Some 3, Some 6, Some 8, Some 10}"
    by (auto simp: owed_def packet_type_def split: packet_splits)
  then have "type_nibble raw \<in> {Some 3, Some 6, Some 8, Some 10}"
    using encode_raw_type [OF assms(1) raw] by auto
  moreover have "bp_raw e = raw"
    using assms(3) raw by (auto simp: owed_entries_def encoding_def split: option.splits)
  ultimately show ?thesis by simp
qed

lemma owed_entries_None: "owed p = None \<Longrightarrow> owed_entries C p = []"
  by (simp add: owed_entries_def)

lemma buffer_inv_append:
  assumes "buffer_inv b" and "encode_headers C" and "encodable C p"
    and "ob_bytes (buffer_append b (owed_entries C p)) \<le> OUTAGE_BUFFER_MAX_BYTES"
  shows "buffer_inv (buffer_append b (owed_entries C p))"
  using assms(1,4) owed_entries_type [OF assms(2,3)]
  by (auto simp: buffer_inv_def buffer_append_def)

lemma buffer_inv_default: "buffer_inv outage_buffer_default"
  by (simp add: buffer_inv_def outage_buffer_default_def)

text \<open>The effect of a serviced packet on the state, pings included.\<close>

lemma service_Inr:
  assumes "packet_ok p" and "encodable C p"
    and "service_outage_packet C p s w = (Inr s', w')"
  shows "service_spec C p s = Inr s'"
proof (cases "local_answer p = []")
  case True
  with assms service_eq_spec show ?thesis by fastforce
next
  case False
  then obtain q where q: "service_outage_packet C p s = io_then (client_send q) (io_return s)"
    "service_spec C p s = Inr s"
    using service_ping by blast
  from assms(3) have "s' = s" unfolding q(1) by (blast dest: ping_run)
  with q(2) show ?thesis by simp
qed

lemma ack_owes_nothing: "is_client_ack p \<Longrightarrow> owed p = None"
  by (auto simp: is_client_ack_def owed_def split: packet_splits)

lemma service_spec_state:
  assumes "encode_headers C" and "packet_ok p" and "encodable C p" and "outage_inv s"
    and "service_spec C p s = Inr s'"
  shows "os_buffer s' = buffer_append (os_buffer s) (owed_entries C p)" and "outage_inv s'"
    and "os_subscriptions s' = sub_track C p (os_subscriptions s)"
proof -
  have sub: "is_client_ack p \<Longrightarrow> sub_track C p (os_subscriptions s) = os_subscriptions s"
    by (auto simp: is_client_ack_def sub_track_def split: packet_splits)
  show buf: "os_buffer s' = buffer_append (os_buffer s) (owed_entries C p)"
    using assms(5) by (auto simp: service_spec_def Let_def rbind_eq_Inr ack_owes_nothing
        owed_entries_None split: if_splits)
  show "os_subscriptions s' = sub_track C p (os_subscriptions s)"
    using assms(5) sub by (auto simp: service_spec_def Let_def rbind_eq_Inr split: if_splits)
  have "window_inv (os_windows s')"
    using assms track_c2b_inv [OF assms(1-3), of "os_windows s"]
    by (auto simp: service_spec_def outage_inv_def Let_def rbind_eq_Inr split: if_splits)
  moreover have "ob_bytes (os_buffer s') \<le> OUTAGE_BUFFER_MAX_BYTES"
  proof (cases "owed p = None")
    case True
    with buf assms(4) show ?thesis
      by (simp add: owed_entries_None outage_inv_def buffer_inv_def)
  next
    case False
    with assms(5) ack_owes_nothing [of p] show ?thesis
      by (auto simp: service_spec_def Let_def split: if_splits)
  qed
  ultimately show "outage_inv s'"
    using assms(1,3,4) buffer_inv_append [of "os_buffer s" C p] buf by (simp add: outage_inv_def)
qed

lemma service_run_state:
  assumes "encode_headers C" and "\<And>p. p \<in> set ps \<Longrightarrow> packet_ok p \<and> encodable C p"
    and "outage_inv s" and "service_run C ps s w = (Inr s', w')"
  shows "os_buffer s' = buffer_append (os_buffer s) (concat (map (owed_entries C) ps)) \<and>
    outage_inv s' \<and> os_subscriptions s' = fold (sub_track C) ps (os_subscriptions s)"
  using assms(2-)
proof (induction ps arbitrary: s w)
  case Nil
  then show ?case by simp
next
  case (Cons p ps)
  then obtain s1 w1 where s1: "service_outage_packet C p s w = (Inr s1, w1)"
    and run: "service_run C ps s1 w1 = (Inr s', w')"
    by (auto simp: io_bind_eq_Inr)
  have ok: "packet_ok p" "encodable C p" using Cons.prems(1) by simp_all
  note st = service_spec_state [OF assms(1) ok Cons.prems(2) service_Inr [OF ok s1]]
  from Cons.IH [OF _ st(2) run] Cons.prems(1) st show ?case
    by (simp add: buffer_append_def)
qed

section \<open>Properties\<close>

text \<open>
  C17. Nothing with a delivery guarantee is lost during an outage. After any run of client
  packets the buffer holds, in arrival order and behind what it held, exactly one entry with
  the encoded packet for every QoS 1/2 PUBLISH, PUBREL, SUBSCRIBE and UNSUBSCRIBE; its byte
  count is the sum of the entries and within the limit; the subscription table is up to date.
\<close>

theorem outage_buffers_in_order:
  assumes "encode_headers C" and "\<forall>p \<in> set ps. packet_ok p \<and> encodable C p"
    and "outage_inv s" and "service_run C ps s w = (Inr s', w')"
  shows "ob_entries (os_buffer s') =
      ob_entries (os_buffer s) @ concat (map (owed_entries C) ps) \<and>
    ob_bytes (os_buffer s') = sum_list (map (length \<circ> bp_raw) (ob_entries (os_buffer s'))) \<and>
    ob_bytes (os_buffer s') \<le> OUTAGE_BUFFER_MAX_BYTES \<and>
    os_subscriptions s' = fold (sub_track C) ps (os_subscriptions s)"
  using service_run_state [OF assms(1) _ assms(3,4)] assms(2)
  by (auto simp: buffer_append_def outage_inv_def buffer_inv_def)

text \<open>
  Admission to the outage buffer is decided by its size alone: a packet with a delivery
  guarantee is refused, ending the session with a quota error, exactly when it would push the
  buffer over its limit; otherwise it is taken, and nothing is written either way.
\<close>

theorem outage_admission:
  assumes "packet_ok p" and "encodable C p" and "owed p = Some (i, q)"
  shows "service_outage_packet C p s w =
    (if ob_bytes (os_buffer s) + length (encoding C p) > OUTAGE_BUFFER_MAX_BYTES
     then Inl (IoError QuotaExceeded ''outage buffer full, closing session'')
     else Inr (s\<lparr>os_buffer := buffer_append (os_buffer s) (owed_entries C p),
            os_subscriptions := sub_track C p (os_subscriptions s)\<rparr>), w)"
proof -
  have "local_answer p = []" "\<not> is_client_ack p" "\<not> is_disconnect p"
    using assms(3)
    by (auto simp: owed_def local_answer_def is_client_ack_def is_disconnect_def split: packet_splits)
  with assms show ?thesis
    by (simp add: service_eq_spec service_spec_def buffer_append_def owed_entries_def)
qed

definition sample_outage :: outage_state where
  "sample_outage = \<lparr>os_buffer = outage_buffer_default, os_subscriptions = [],
     os_windows = windows_new\<rparr>"

definition sample_world :: "unit world" where
  "sample_world = \<lparr>client_log = [], broker_log = [], client_ok = [], broker_ok = [],
     broker_next = []\<rparr>"

definition sample_uplink :: "unit mqtt_packet list" where
  "sample_uplink = [sample_publish AtLeastOnce 7, V3 V3PingRequest, sample_publish AtMostOnce 8,
     V3 (V3Subscribe 9 [(''t'', AtLeastOnce)]), V3 (V3PublishRelease 5)]"

lemma sample_uplink_ok: "\<forall>p \<in> set sample_uplink. packet_ok p \<and> encodable sample_rmqtt p"
  by (simp add: sample_uplink_def sample_publish_def packet_ok_def publish_has_id_def
      sample_encode_raw)

lemma sample_outage_inv: "outage_inv sample_outage"
  by (simp add: outage_inv_def sample_outage_def window_inv_new buffer_inv_default)

lemma sample_service_run:
  "\<exists>s' w'. service_run sample_rmqtt sample_uplink sample_outage sample_world = (Inr s', w')"
  by (simp add: sample_uplink_def sample_publish_def service_outage_packet_def is_client_ack_def
      io_bind_def io_then_def buffer_publish_def buffer_packet_def track_and_buffer_def
      encode_raw_def expect_encoded_def sample_rmqtt_def sample_encode_def packet_type_def
      outage_push_def sample_outage_def outage_buffer_default_def OUTAGE_BUFFER_MAX_BYTES_def
      client_send_def client_do_def script_head_def sample_world_def)

theorem outage_buffers_in_order_witness:
  "\<exists>s' w'. service_run sample_rmqtt sample_uplink sample_outage sample_world = (Inr s', w') \<and>
     map bp_packet_id (ob_entries (os_buffer s')) = [7, 9, 5] \<and>
     map bp_raw (ob_entries (os_buffer s')) = [[48, 0], [128, 0], [96, 0]]"
proof -
  obtain s' w' where run: "service_run sample_rmqtt sample_uplink sample_outage sample_world = (Inr s', w')"
    using sample_service_run by blast
  with outage_buffers_in_order [OF sample_headers sample_uplink_ok sample_outage_inv run] show ?thesis
    by (auto simp: sample_uplink_def sample_publish_def sample_outage_def outage_buffer_default_def
        owed_entries_def owed_def owed_publish_def encoding_def encode_raw_def expect_encoded_def
        sample_rmqtt_def sample_encode_def packet_type_def)
qed

theorem outage_admission_witness:
  "service_outage_packet sample_rmqtt (V3 (V3PublishRelease 5))
     (sample_outage\<lparr>os_buffer := \<lparr>ob_entries = [], ob_bytes = 1048575\<rparr>\<rparr>) sample_world =
   (Inl (IoError QuotaExceeded ''outage buffer full, closing session''), sample_world)"
  by (subst outage_admission [where i = 5 and q = ExactlyOnce])
    (simp_all add: packet_ok_def sample_encode_raw owed_def OUTAGE_BUFFER_MAX_BYTES_def
      sample_encoding packet_type_def)

end
