(* ===== verification/Registry.thy ===== *)
theory Registry
  imports Outage
begin

text \<open>
  The session registry (\<open>registry.rs\<close>): what a frozen session hands over, the table of live
  sessions with its identifier counter, the freezing of all sessions and the three ways a
  batch ends (resume all, resume all but those already handed over, finish). Channels are
  modelled by what the registry can observe of them: for each session how its freeze request
  was answered, and for each resume channel whether a message was sent or it was dropped.
\<close>

section \<open>Data\<close>

record session_snapshot =
  ss_version :: u8
  ss_connect_raw :: bytes
  ss_client_buf :: bytes
  ss_broker_buf :: bytes
  ss_windows :: "window_entry list"
  ss_subscriptions :: subscriptions
  ss_buffered :: "buffered_publish list"

record frozen_session =
  fz_id :: u64
  fz_snapshot :: session_snapshot
  fz_client_fd :: raw_fd

text \<open>
  The live sessions, as the entries of the hash map with distinct keys, and the next
  identifier; \<open>'tx\<close> is the sender of a session's control channel.
\<close>

record 'tx registry =
  rg_sessions :: "(u64 \<times> 'tx) list"
  rg_next_id :: u64

record freeze_batch =
  fb_frozen :: "frozen_session list"
  fb_resumes :: "u64 list"

definition FREEZE_REPLY_TIMEOUT :: duration where
  "FREEZE_REPLY_TIMEOUT = 5 * 1000000000"

text \<open>
  How a freeze request ends: the send fails, the session replies, it dies while freezing, or
  the reply does not come in time.
\<close>

datatype freeze_answer = SendFailed | Replied frozen_session | ReplyDropped | ReplyTimedOut

section \<open>The registry\<close>

definition registry_new :: "'tx registry" where
  "registry_new = \<lparr>rg_sessions = [], rg_next_id = 0\<rparr>"

definition register :: "'tx \<Rightarrow> 'tx registry \<Rightarrow> u64 \<times> 'tx registry" where
  "register tx r =
     (let i = rg_next_id r
      in (i, \<lparr>rg_sessions = (i, tx) # filter (\<lambda>e. fst e \<noteq> i) (rg_sessions r),
              rg_next_id = i + 1\<rparr>))"

definition unregister :: "u64 \<Rightarrow> 'tx registry \<Rightarrow> 'tx registry" where
  "unregister i r = r\<lparr>rg_sessions := filter (\<lambda>e. fst e \<noteq> i) (rg_sessions r)\<rparr>"

definition registry_count :: "'tx registry \<Rightarrow> nat" where
  "registry_count r = length (rg_sessions r)"

text \<open>
  The senders are the entries of the hash map in its iteration order, which is not specified:
  \<open>freeze_all\<close> takes them as the list it iterates over.
\<close>

definition freeze_one :: "(u64 \<Rightarrow> freeze_answer) \<Rightarrow> u64 \<times> 'tx \<Rightarrow> freeze_batch \<Rightarrow> freeze_batch" where
  "freeze_one ans sender b =
     (case ans (fst sender) of
        SendFailed \<Rightarrow> b
      | Replied f \<Rightarrow> \<lparr>fb_frozen = fb_frozen b @ [f],
                     fb_resumes = filter (\<lambda>i. i \<noteq> fst sender) (fb_resumes b) @ [fst sender]\<rparr>
      | ReplyDropped \<Rightarrow> b
      | ReplyTimedOut \<Rightarrow> b)"

definition freeze_all :: "(u64 \<Rightarrow> freeze_answer) \<Rightarrow> (u64 \<times> 'tx) list \<Rightarrow> freeze_batch" where
  "freeze_all ans senders = fold (freeze_one ans) senders \<lparr>fb_frozen = [], fb_resumes = []\<rparr>"

section \<open>Ending a freeze\<close>

text \<open>
  The messages sent on resume channels, in order, and the channels dropped without one.
\<close>

fun resume_loop :: "frozen_session list \<Rightarrow> u64 list \<Rightarrow> (u64 \<times> frozen_session) list \<times> u64 list" where
  "resume_loop [] resumes = ([], resumes)"
| "resume_loop (s # ss) resumes =
     (if fz_id s \<in> set resumes
      then let (msgs, rest) = resume_loop ss (filter (\<lambda>i. i \<noteq> fz_id s) resumes)
           in ((fz_id s, s) # msgs, rest)
      else resume_loop ss resumes)"

definition resume_skipping :: "nat \<Rightarrow> freeze_batch \<Rightarrow> (u64 \<times> frozen_session) list \<times> u64 list" where
  "resume_skipping sent b = resume_loop (drop sent (fb_frozen b)) (fb_resumes b)"

definition resume_all :: "freeze_batch \<Rightarrow> (u64 \<times> frozen_session) list \<times> u64 list" where
  "resume_all b = resume_skipping 0 b"

definition finish :: "freeze_batch \<Rightarrow> (u64 \<times> frozen_session) list \<times> u64 list" where
  "finish b = ([], fb_resumes b)"

section \<open>The contract of a session table\<close>

text \<open>
  What the rest of the program relies on: as long as the counter has not run out, registering
  hands out an identifier no live session has, and exactly the registered and not yet
  unregistered sessions are live.
\<close>

locale session_table =
  fixes reg :: "'r \<Rightarrow> u64 \<times> 'r"
    and unreg :: "u64 \<Rightarrow> 'r \<Rightarrow> 'r"
    and live :: "'r \<Rightarrow> u64 set"
    and issued :: "'r \<Rightarrow> nat"
    and ok :: "'r \<Rightarrow> bool"
  assumes reg_ok: "ok r \<Longrightarrow> issued r + 1 < 2 ^ 64 \<Longrightarrow> ok (snd (reg r))"
    and unreg_ok: "ok r \<Longrightarrow> ok (unreg i r)"
    and reg_id: "ok r \<Longrightarrow> unat (fst (reg r)) = issued r"
    and live_below: "ok r \<Longrightarrow> i \<in> live r \<Longrightarrow> unat i < issued r"
    and reg_live: "live (snd (reg r)) = insert (fst (reg r)) (live r)"
    and unreg_live: "live (unreg i r) = live r - {i}"
    and reg_issued: "issued r + 1 < 2 ^ 64 \<Longrightarrow> issued (snd (reg r)) = issued r + 1"
    and unreg_issued: "issued (unreg i r) = issued r"
begin

text \<open>A history of the table: sessions that start (\<open>None\<close>) and sessions that end.\<close>

fun history :: "u64 option list \<Rightarrow> 'r \<Rightarrow> u64 list \<times> 'r" where
  "history [] r = ([], r)"
| "history (None # es) r =
     (let (i, r1) = reg r; (ids, r2) = history es r1 in (i # ids, r2))"
| "history (Some i # es) r = history es (unreg i r)"

definition starts :: "u64 option list \<Rightarrow> nat" where
  "starts es = length (filter (\<lambda>e. e = None) es)"

lemma starts_simps [simp]:
  "starts [] = 0" "starts (None # es) = Suc (starts es)" "starts (Some i # es) = starts es"
  by (simp_all add: starts_def)

lemma history_ids:
  assumes "ok r" and "issued r + starts es < 2 ^ 64"
  shows "map unat (fst (history es r)) = [issued r ..< issued r + starts es] \<and>
    ok (snd (history es r)) \<and> issued (snd (history es r)) = issued r + starts es"
  using assms
proof (induction es arbitrary: r)
  case Nil
  then show ?case by simp
next
  case (Cons e es)
  show ?case
  proof (cases e)
    case None
    obtain i r1 where reg: "reg r = (i, r1)" by (cases "reg r")
    from Cons.prems None have lt: "issued r + 1 < 2 ^ 64" by simp
    have r1: "ok r1" "issued r1 = issued r + 1" "unat i = issued r"
      using reg_ok [OF Cons.prems(1) lt] reg_issued [OF lt] reg_id [OF Cons.prems(1)] reg by simp_all
    have "issued r1 + starts es < 2 ^ 64" using Cons.prems None r1 by simp
    from Cons.IH [OF r1(1) this] r1 reg None show ?thesis
      by (simp add: split_beta upt_conv_Cons)
  next
    case (Some i)
    with Cons.IH [of "unreg i r"] Cons.prems show ?thesis
      by (simp add: unreg_ok unreg_issued)
  qed
qed

text \<open>No identifier is issued twice, and each is new when it is issued.\<close>

lemma history_distinct:
  assumes "ok r" and "issued r + starts es < 2 ^ 64"
  shows "distinct (fst (history es r))"
proof -
  have "distinct (map unat (fst (history es r)))"
    using history_ids [OF assms] by simp
  then show ?thesis by (simp add: distinct_map)
qed

lemma fresh: "ok r \<Longrightarrow> fst (reg r) \<notin> live r"
  using live_below reg_id by force

end

definition registry_ok :: "'tx registry \<Rightarrow> bool" where
  "registry_ok r \<longleftrightarrow> distinct (map fst (rg_sessions r)) \<and>
     (\<forall>i \<in> fst ` set (rg_sessions r). unat i < unat (rg_next_id r))"

lemma unat_Suc_u64: "unat (i :: u64) + 1 < 2 ^ 64 \<Longrightarrow> unat (i + 1) = unat i + 1"
  by (simp add: unat_word_ariths)

interpretation rt: session_table
  "register tx" unregister "\<lambda>r. fst ` set (rg_sessions r)" "\<lambda>r. unat (rg_next_id r)" registry_ok
  for tx
proof
  fix r :: "'a registry"
  assume "registry_ok r" and "unat (rg_next_id r) + 1 < 2 ^ 64"
  then show "registry_ok (snd (register tx r))"
    using unat_Suc_u64 [of "rg_next_id r"]
    by (auto simp: registry_ok_def register_def Let_def distinct_map_filter less_SucI)
qed (auto simp: registry_ok_def register_def unregister_def Let_def distinct_map_filter
      unat_Suc_u64)

section \<open>Freezing and resuming\<close>

text \<open>A session replies with its own identifier.\<close>

definition honest :: "(u64 \<Rightarrow> freeze_answer) \<Rightarrow> bool" where
  "honest ans \<longleftrightarrow> (\<forall>i f. ans i = Replied f \<longrightarrow> fz_id f = i)"

definition replies :: "(u64 \<Rightarrow> freeze_answer) \<Rightarrow> (u64 \<times> 'tx) list \<Rightarrow> frozen_session list" where
  "replies ans senders =
     List.map_filter (\<lambda>s. case ans (fst s) of Replied f \<Rightarrow> Some f | _ \<Rightarrow> None) senders"

lemma replies_simps [simp]:
  "replies ans [] = []"
  "replies ans (s # ss) =
     (case ans (fst s) of Replied f \<Rightarrow> f # replies ans ss | _ \<Rightarrow> replies ans ss)"
  by (simp_all add: replies_def List.map_filter_simps split: freeze_answer.splits)

lemma replies_ids: "honest ans \<Longrightarrow> fz_id ` set (replies ans senders) \<subseteq> fst ` set senders"
  by (induction senders) (auto simp: honest_def split: freeze_answer.splits)

lemma freeze_fold:
  assumes "honest ans" and "distinct (map fst senders)"
    and "fb_resumes b = map fz_id (fb_frozen b)"
    and "fz_id ` set (fb_frozen b) \<inter> fst ` set senders = {}"
  shows "fold (freeze_one ans) senders b =
    \<lparr>fb_frozen = fb_frozen b @ replies ans senders,
     fb_resumes = map fz_id (fb_frozen b @ replies ans senders)\<rparr>"
  using assms
proof (induction senders arbitrary: b)
  case Nil
  then show ?case by simp
next
  case (Cons s ss)
  show ?case
  proof (cases "ans (fst s)")
    case (Replied f)
    have id: "fz_id f = fst s" using Replied Cons.prems(1) by (simp add: honest_def)
    have "fst s \<notin> set (fb_resumes b)" using Cons.prems(3,4) by auto
    then have "filter (\<lambda>i. i \<noteq> fst s) (fb_resumes b) = fb_resumes b"
      by (auto simp: filter_id_conv)
    with Cons.IH [of "freeze_one ans s b"] Cons.prems Replied id show ?thesis
      by (auto simp: freeze_one_def)
  qed (use Cons in \<open>auto simp: freeze_one_def\<close>)
qed

lemma freeze_all_eq:
  assumes "honest ans" and "distinct (map fst senders)"
  shows "freeze_all ans senders =
    \<lparr>fb_frozen = replies ans senders, fb_resumes = map fz_id (replies ans senders)\<rparr>"
  using freeze_fold [OF assms, of "\<lparr>fb_frozen = [], fb_resumes = []\<rparr>"]
  by (simp add: freeze_all_def)

lemma replies_distinct:
  "honest ans \<Longrightarrow> distinct (map fst senders) \<Longrightarrow> distinct (map fz_id (replies ans senders))"
proof (induction senders)
  case (Cons s ss)
  with replies_ids [of ans ss] show ?case
    by (auto simp: honest_def split: freeze_answer.splits)
qed simp

lemma resume_loop_eq:
  assumes "distinct (map fz_id ss)" and "fz_id ` set ss \<subseteq> set resumes"
  shows "resume_loop ss resumes =
    (map (\<lambda>s. (fz_id s, s)) ss, filter (\<lambda>i. i \<notin> fz_id ` set ss) resumes)"
  using assms
proof (induction ss arbitrary: resumes)
  case Nil
  then show ?case by simp
next
  case (Cons s ss)
  have "fz_id s \<notin> fz_id ` set ss" and "fz_id ` set ss \<subseteq> set resumes"
    using Cons.prems by simp_all
  then have "fz_id ` set ss \<subseteq> set (filter (\<lambda>i. i \<noteq> fz_id s) resumes)"
    unfolding set_filter by blast
  with Cons show ?case by (auto simp: conj_commute intro: filter_cong)
qed

lemma resume_skipping_eq:
  assumes "distinct (map fz_id fs)"
  shows "resume_skipping n \<lparr>fb_frozen = fs, fb_resumes = map fz_id fs\<rparr> =
    (map (\<lambda>s. (fz_id s, s)) (drop n fs), map fz_id (take n fs))"
proof -
  have d: "distinct (map fz_id (drop n fs))"
    using assms by (simp add: drop_map [symmetric] distinct_drop)
  have sub: "fz_id ` set (drop n fs) \<subseteq> set (map fz_id fs)"
    using set_drop_subset [of n fs] by auto
  have "distinct (map fz_id (take n fs) @ map fz_id (drop n fs))"
    using assms by (simp flip: map_append)
  then have disj: "fz_id ` set (take n fs) \<inter> fz_id ` set (drop n fs) = {}"
    by simp
  have "filter (\<lambda>i. i \<notin> fz_id ` set (drop n fs)) (map fz_id (take n fs) @ map fz_id (drop n fs)) =
      map fz_id (take n fs)"
    using disj by (auto simp: filter_empty_conv filter_id_conv)
  then have "filter (\<lambda>i. i \<notin> fz_id ` set (drop n fs)) (map fz_id fs) = map fz_id (take n fs)"
    by (simp flip: map_append)
  with resume_loop_eq [OF d sub] show ?thesis by (simp add: resume_skipping_def)
qed

section \<open>Properties\<close>

text \<open>
  C27. Session identifiers are unique. From a fresh registry, over any history of sessions
  starting and ending with fewer than \<open>2 ^ 64\<close> starts, no two sessions ever get the same
  identifier, so a control or resume channel is never confused with another session's.
\<close>

theorem registry_ids_unique:
  fixes tx :: 'tx
  assumes "length (filter (\<lambda>e. e = None) es) < 2 ^ 64"
  shows "distinct (fst (rt.history tx es registry_new))"
proof -
  have "registry_ok (registry_new :: 'tx registry)" by (simp add: registry_ok_def registry_new_def)
  then show ?thesis
    by (rule rt.history_distinct) (use assms in \<open>simp add: rt.starts_def registry_new_def\<close>)
qed

theorem registry_ids_unique_witness:
  "fst (rt.history () [None, None, Some 0, None] registry_new) = [0, 1, 2] \<and>
   distinct (fst (rt.history () [None, None, Some 0, None] registry_new))"
  using registry_ids_unique [of "[None, None, Some 0, None]" "()"]
  by (simp add: register_def unregister_def registry_new_def)

text \<open>
  C28. A freeze ends for every frozen session in exactly one way. After freezing any set of
  sessions, resuming all but the first \<open>sent\<close> sends each remaining session a resume message
  carrying its own snapshot and drops precisely the channels of the first \<open>sent\<close>; with
  \<open>sent = 0\<close> every frozen session resumes, and \<open>finish\<close> drops every channel.
\<close>

theorem freeze_resume_partition:
  assumes "honest ans" and "distinct (map fst senders)"
    and "fs = fb_frozen (freeze_all ans senders)"
  shows "resume_skipping sent (freeze_all ans senders) =
      (map (\<lambda>f. (fz_id f, f)) (drop sent fs), map fz_id (take sent fs)) \<and>
    resume_all (freeze_all ans senders) = (map (\<lambda>f. (fz_id f, f)) fs, []) \<and>
    finish (freeze_all ans senders) = ([], map fz_id fs) \<and>
    (\<forall>i f. (i \<in> fst ` set senders \<and> ans i = Replied f) = (f \<in> set fs \<and> fz_id f = i))"
proof -
  have fs: "fs = replies ans senders" using freeze_all_eq [OF assms(1,2)] assms(3) by simp
  have mem: "(i \<in> fst ` set senders \<and> ans i = Replied f) = (f \<in> set fs \<and> fz_id f = i)" for i f
    unfolding fs using assms(1)
    by (induction senders) (auto simp: honest_def split: freeze_answer.splits)
  have d: "distinct (map fz_id fs)" using replies_distinct [OF assms(1,2)] fs by simp
  show ?thesis
    using mem resume_skipping_eq [OF d, of sent] resume_skipping_eq [OF d, of 0]
    by (simp add: freeze_all_eq [OF assms(1,2)] flip: fs) (simp add: resume_all_def finish_def)
qed

definition sample_frozen :: "u64 \<Rightarrow> frozen_session" where
  "sample_frozen i = \<lparr>fz_id = i, fz_snapshot = \<lparr>ss_version = 4, ss_connect_raw = [],
     ss_client_buf = [], ss_broker_buf = [], ss_windows = [], ss_subscriptions = [],
     ss_buffered = []\<rparr>, fz_client_fd = 9\<rparr>"

theorem freeze_resume_partition_witness:
  "resume_skipping 1 (freeze_all (\<lambda>i. if i = 2 then ReplyTimedOut else Replied (sample_frozen i))
     [(3, ()), (2, ()), (7, ())]) = ([(7, sample_frozen 7)], [3])"
proof -
  let ?ans = "\<lambda>i. if i = 2 then ReplyTimedOut else Replied (sample_frozen i)"
  have "honest ?ans" by (simp add: honest_def sample_frozen_def)
  from freeze_resume_partition [OF this, of "[(3, ()), (2, ()), (7, ())]" _ 1] show ?thesis
    by (simp add: freeze_all_def freeze_one_def sample_frozen_def)
qed

end
