(* ===== verification/Handshake.thy ===== *)
theory Handshake
  imports Codec
begin

text \<open>
  Client CONNECT handling (\<open>session/handshake.rs\<close>): the clean-bit patch on a raw CONNECT,
  the \<open>Handshake\<close> a session keeps, its recovery from a snapshot, and the reading of the
  CONNECT itself. \<open>Framed::next\<close> belongs to the framing crate, so the handshake takes its
  two calls as functions from the connection to the connection and what it yielded.
\<close>

section \<open>Forcing session resumption\<close>

definition malformed_connect :: err where
  "malformed_connect = IoError InvalidData ''malformed CONNECT in snapshot''"

text \<open>The loop that skips the remaining-length bytes: it ends after the first byte below 0x80.\<close>

function skip_remaining_length :: "bytes \<Rightarrow> nat \<Rightarrow> nat res" where
  "skip_remaining_length raw i =
     (case vec_get raw i of
        None \<Rightarrow> Inl malformed_connect
      | Some byte \<Rightarrow>
          if byte AND 128 = 0 then Inr (i + 1) else skip_remaining_length raw (i + 1))"
  by pat_completeness auto
termination
  by (relation "measure (\<lambda>(raw, i). length raw - i)") (auto simp: vec_get_def split: if_splits)

declare skip_remaining_length.simps [simp del]

definition from_be_bytes :: "u8 \<Rightarrow> u8 \<Rightarrow> u16" where
  "from_be_bytes hi lo = word_cat hi lo"

definition force_session_resumption :: "bytes \<Rightarrow> bytes res" where
  "force_session_resumption raw =
     rbind (skip_remaining_length raw 1) (\<lambda>i.
     rbind (ok_or malformed_connect (vec_get raw i)) (\<lambda>hi.
     rbind (ok_or malformed_connect (vec_get raw (i + 1))) (\<lambda>lo.
     let name_len = unat (from_be_bytes hi lo);
         k = i + 2 + name_len + 1
     in rbind (ok_or malformed_connect (vec_get raw k)) (\<lambda>flags.
        Inr (raw[k := flags AND NOT 2])))))"

section \<open>The handshake state\<close>

record handshake_state =
  hs_version :: protocol_version
  hs_connect_raw :: bytes
  hs_keep_alive :: u16

definition version_byte :: "handshake_state \<Rightarrow> u8" where
  "version_byte hs = (case hs_version hs of MQTT3 \<Rightarrow> 4 | MQTT5 \<Rightarrow> 5)"

definition from_snapshot_version ::
  "('x, 'c) rmqtt \<Rightarrow> u8 \<Rightarrow> bytes \<Rightarrow> handshake_state res" where
  "from_snapshot_version C version connect_raw =
     rbind (if version = 4 then Inr MQTT3 else if version = 5 then Inr MQTT5
            else Inl (IoError InvalidData ''unknown MQTT protocol level'')) (\<lambda>v.
     case fst (mqtt_decode C (codec_for C v) connect_raw) of
       Inl e \<Rightarrow> Inl (invalid_data e)
     | Inr None \<Rightarrow> Inl (invalid_data ''undecodable CONNECT in snapshot'')
     | Inr (Some packet) \<Rightarrow> Inr \<lparr>hs_version = v, hs_connect_raw = connect_raw,
         hs_keep_alive = keep_alive_of packet\<rparr>)"

definition handshake ::
  "('x, 'c) rmqtt \<Rightarrow> ('c framed \<Rightarrow> 'c framed \<times> 'x next_result) \<Rightarrow>
   ('c framed \<Rightarrow> 'c framed \<times> 'x next_result) \<Rightarrow> raw_fd \<Rightarrow> ('c framed \<times> handshake_state) res" where
  "handshake C next1 next2 client =
     (case next1 \<lparr>fr_io = client, fr_codec = VersionCodec, fr_read_buf = []\<rparr> of
        (parts, NextPacket (Version version)) \<Rightarrow>
          (case next2 (parts\<lparr>fr_codec := codec_for C version\<rparr>) of
             (client', NextPacket connect) \<Rightarrow>
               (case mqtt_encode C (codec_for C version) connect of
                  Inl e \<Rightarrow> Inl (invalid_data e)
                | Inr connect_raw \<Rightarrow>
                    Inr (client', \<lparr>hs_version = version, hs_connect_raw = connect_raw,
                           hs_keep_alive = keep_alive_of connect\<rparr>))
           | (client', NextErr e) \<Rightarrow> Inl (invalid_data e)
           | (client', NextNone) \<Rightarrow> Inl (IoError UnexpectedEof ''client closed before CONNECT''))
      | (parts, NextPacket p) \<Rightarrow> Inl (Panicked ''VersionCodec only yields Version packets'')
      | (parts, NextErr e) \<Rightarrow> Inl (invalid_data e)
      | (parts, NextNone) \<Rightarrow> Inl (IoError UnexpectedEof ''client closed before CONNECT''))"

section \<open>The layout of a CONNECT\<close>

text \<open>
  The bytes of a CONNECT as MQTT 3.1 lays them out: fixed header, remaining length as a
  variable byte integer, length-prefixed protocol name, protocol level, connect flags, rest.
\<close>

definition is_varint :: "bytes \<Rightarrow> bool" where
  "is_varint vl \<longleftrightarrow> vl \<noteq> [] \<and> (\<forall>b \<in> set (butlast vl). bit b 7) \<and> \<not> bit (last vl) 7"

record connect_layout =
  cl_header :: u8
  cl_remaining :: bytes
  cl_name_hi :: u8
  cl_name_lo :: u8
  cl_name :: bytes
  cl_level :: u8
  cl_flags :: u8
  cl_rest :: bytes

definition layout_ok :: "connect_layout \<Rightarrow> bool" where
  "layout_ok l \<longleftrightarrow> is_varint (cl_remaining l) \<and>
     length (cl_name l) = 256 * unat (cl_name_hi l) + unat (cl_name_lo l)"

definition layout_bytes :: "connect_layout \<Rightarrow> bytes" where
  "layout_bytes l = [cl_header l] @ cl_remaining l @ [cl_name_hi l, cl_name_lo l] @
     cl_name l @ [cl_level l, cl_flags l] @ cl_rest l"

text \<open>Everything but the clean bit (bit 1 of the flags) is the same.\<close>

definition clean_cleared :: "connect_layout \<Rightarrow> connect_layout \<Rightarrow> bool" where
  "clean_cleared l l' \<longleftrightarrow> (\<exists>f. l' = l\<lparr>cl_flags := f\<rparr> \<and>
     (\<forall>n. bit f n \<longleftrightarrow> bit (cl_flags l) n \<and> n \<noteq> 1))"

section \<open>Lemmas\<close>

lemma and_128: "(b AND 128 = (0 :: u8)) = (\<not> bit b 7)"
proof -
  have "(128 :: u8) = 2 ^ 7" by simp
  then show ?thesis by (simp only: and_exp_eq_0_iff_not_bit)
qed

lemma unat_from_be_bytes: "unat (from_be_bytes hi lo) = 256 * unat hi + unat lo"
proof -
  have "from_be_bytes hi lo = word_of_nat (256 * unat hi + unat lo)"
    by (simp add: from_be_bytes_def word_cat_eq push_bit_eq_mult of_nat_unat mult.commute)
  then have "unat (from_be_bytes hi lo) = (256 * unat hi + unat lo) mod 2 ^ LENGTH(16)"
    by (simp only: unat_of_nat)
  moreover have "unat hi < 2 ^ LENGTH(8)" "unat lo < 2 ^ LENGTH(8)"
    by (rule unsigned_less)+
  ultimately show ?thesis by simp
qed

lemma is_varint_Cons:
  "is_varint (b # vl) \<longleftrightarrow> (if vl = [] then \<not> bit b 7 else bit b 7 \<and> is_varint vl)"
  by (auto simp: is_varint_def)

lemma is_varint_Nil [simp]: "\<not> is_varint []"
  by (simp add: is_varint_def)

lemma split_varint:
  "(\<exists>vl ys. b # xs = vl @ ys \<and> is_varint vl \<and> j = k + length vl) \<longleftrightarrow>
   (if bit b 7 then \<exists>vl ys. xs = vl @ ys \<and> is_varint vl \<and> j = Suc k + length vl else j = Suc k)"
  (is "?L \<longleftrightarrow> ?R")
proof
  assume ?L
  then show ?R by (auto simp: Cons_eq_append_conv is_varint_Cons split: if_splits)
next
  assume R: ?R
  show ?L
  proof (cases "bit b 7")
    case True
    with R obtain vl ys where "xs = vl @ ys" "is_varint vl" "j = Suc k + length vl" by auto
    with True have "b # xs = (b # vl) @ ys \<and> is_varint (b # vl) \<and> j = k + length (b # vl)"
      by (auto simp: is_varint_Cons)
    then show ?thesis by blast
  next
    case False
    with R have "b # xs = [b] @ xs \<and> is_varint [b] \<and> j = k + length [b]"
      by (simp add: is_varint_Cons)
    then show ?thesis by blast
  qed
qed

text \<open>The loop finds the end of the variable byte integer at its position, if there is one.\<close>

lemma vec_get_append [simp]: "vec_get (pre @ b # xs) (length pre) = Some b"
  by (simp add: vec_get_def)

lemma vec_get_end [simp]: "vec_get pre (length pre) = None"
  by (simp add: vec_get_def)

lemma skip_eq_Inr:
  "skip_remaining_length (pre @ xs) (length pre) = Inr j \<longleftrightarrow>
   (\<exists>vl ys. xs = vl @ ys \<and> is_varint vl \<and> j = length pre + length vl)"
proof (induction xs arbitrary: pre)
  case Nil
  then show ?case
    by (auto simp: skip_remaining_length.simps [of pre] is_varint_def)
next
  case (Cons b xs)
  have step: "skip_remaining_length (pre @ b # xs) (length pre) =
      (if bit b 7 then skip_remaining_length ((pre @ [b]) @ xs) (length (pre @ [b]))
       else Inr (length pre + 1))"
    by (subst skip_remaining_length.simps) (simp add: and_128)
  show ?case
    unfolding split_varint step using Cons.IH [of "pre @ [b]"] by auto
qed

text \<open>Reading a CONNECT at the positions of its layout.\<close>

lemma vec_get_at: "vec_get (pre @ b # ys) i = Some b" if "i = length pre"
  using that by simp

lemma vec_get_Some: "vec_get v i = Some b \<longleftrightarrow> (\<exists>pre ys. v = pre @ b # ys \<and> i = length pre)"
proof
  assume "vec_get v i = Some b"
  then have "i < length v" "v ! i = b" by (auto simp: vec_get_def split: if_splits)
  then have "v = take i v @ b # drop (Suc i) v \<and> i = length (take i v)"
    by (auto simp: id_take_nth_drop)
  then show "\<exists>pre ys. v = pre @ b # ys \<and> i = length pre" by blast
qed auto

lemma force_layout:
  assumes "layout_ok l"
  shows "force_session_resumption (layout_bytes l) =
    Inr (layout_bytes (l\<lparr>cl_flags := cl_flags l AND NOT 2\<rparr>))"
proof -
  define pre where "pre = cl_header l # cl_remaining l"
  define post where "post = cl_name l @ [cl_level l, cl_flags l] @ cl_rest l"
  have skip: "skip_remaining_length (layout_bytes l) 1 = Inr (length pre)"
    using assms skip_eq_Inr [of "[cl_header l]"]
    by (auto simp: layout_bytes_def layout_ok_def pre_def)
  have hi: "vec_get (layout_bytes l) (length pre) = Some (cl_name_hi l)"
    using vec_get_append [of pre "cl_name_hi l" "cl_name_lo l # post"]
    by (simp add: layout_bytes_def pre_def post_def)
  have lo: "vec_get (layout_bytes l) (length pre + 1) = Some (cl_name_lo l)"
    using vec_get_append [of "pre @ [cl_name_hi l]" "cl_name_lo l" post]
    by (simp add: layout_bytes_def pre_def post_def)
  let ?q = "pre @ [cl_name_hi l, cl_name_lo l] @ cl_name l @ [cl_level l]"
  have k: "length pre + 2 + unat (from_be_bytes (cl_name_hi l) (cl_name_lo l)) + 1 = length ?q"
    using assms by (simp add: layout_ok_def unat_from_be_bytes)
  have bytes: "layout_bytes (l\<lparr>cl_flags := f\<rparr>) = ?q @ f # cl_rest l" for f
    by (simp add: layout_bytes_def pre_def)
  have all: "layout_bytes l = ?q @ cl_flags l # cl_rest l"
    using bytes [of "cl_flags l"] by simp
  have flags: "vec_get (layout_bytes l) (length ?q) = Some (cl_flags l)"
    unfolding all by (rule vec_get_append)
  have "(layout_bytes l)[length ?q := cl_flags l AND NOT 2] = ?q @ (cl_flags l AND NOT 2) # cl_rest l"
    unfolding all by (simp add: list_update_append)
  then show ?thesis
    by (simp only: force_session_resumption_def skip hi lo rbind_simps ok_or_simps Let_def k flags bytes)
qed

lemma force_Inr_layout:
  assumes "force_session_resumption raw = Inr raw'"
  shows "\<exists>l. layout_ok l \<and> raw = layout_bytes l"
proof -
  from assms obtain i hi lo flags where skip: "skip_remaining_length raw 1 = Inr i"
    and hi: "vec_get raw i = Some hi" and lo: "vec_get raw (i + 1) = Some lo"
    and fl: "vec_get raw (i + 2 + unat (from_be_bytes hi lo) + 1) = Some flags"
    by (auto simp: force_session_resumption_def rbind_eq_Inr Let_def)
  have "raw \<noteq> []" using hi by (auto simp: vec_get_def split: if_splits)
  then obtain h xs where raw: "raw = [h] @ xs" by (cases raw) auto
  from skip [unfolded raw] obtain vl ys where xs: "xs = vl @ ys" and vl: "is_varint vl"
    and i: "i = 1 + length vl"
    using skip_eq_Inr [of "[h]" xs i] by auto
  let ?n = "unat (from_be_bytes hi lo)"
  have ys: "ys = hi # lo # drop 2 ys"
    using hi lo i raw xs
    by (cases ys; cases "tl ys") (auto simp: vec_get_def nth_append split: if_splits)
  define zs where "zs = drop 2 ys"
  have ys: "ys = hi # lo # zs" using ys by (simp add: zs_def)
  have "vec_get zs (?n + 1) = Some flags"
    using fl i by (simp add: raw xs ys vec_get_def nth_append split: if_splits)
  then obtain pre rest where zs: "zs = pre @ flags # rest" and len: "length pre = ?n + 1"
    by (auto simp: vec_get_Some)
  then obtain name level where pre: "pre = name @ [level]" by (cases pre rule: rev_cases) auto
  let ?l = "\<lparr>cl_header = h, cl_remaining = vl, cl_name_hi = hi, cl_name_lo = lo, cl_name = name,
    cl_level = level, cl_flags = flags, cl_rest = rest\<rparr>"
  have "layout_ok ?l"
    using vl len pre by (simp add: layout_ok_def unat_from_be_bytes)
  moreover have "raw = layout_bytes ?l" by (simp add: layout_bytes_def raw xs ys zs pre)
  ultimately show ?thesis by blast
qed

lemma clean_cleared_and: "clean_cleared l (l\<lparr>cl_flags := cl_flags l AND NOT 2\<rparr>)"
  unfolding clean_cleared_def using bit_clear_1 by blast

lemma clean_cleared_unique:
  assumes "clean_cleared l l'"
  shows "l' = l\<lparr>cl_flags := cl_flags l AND NOT 2\<rparr>"
proof -
  from assms obtain f where l': "l' = l\<lparr>cl_flags := f\<rparr>"
    and f: "\<And>n. bit f n \<longleftrightarrow> bit (cl_flags l) n \<and> n \<noteq> 1"
    by (auto simp: clean_cleared_def)
  have "f = cl_flags l AND NOT 2" by (rule bit_eqI) (simp only: f bit_clear_1)
  with l' show ?thesis by (simp only:)
qed

section \<open>Properties\<close>

text \<open>
  C24. The clean-bit patch is exact. It succeeds on precisely the byte strings laid out as a
  CONNECT up to the flags byte, and its result is the same CONNECT with the clean-session
  bit cleared and nothing else changed.
\<close>

theorem force_session_resumption_exact:
  "force_session_resumption raw = Inr raw' \<longleftrightarrow>
   (\<exists>l l'. layout_ok l \<and> raw = layout_bytes l \<and> clean_cleared l l' \<and> raw' = layout_bytes l')"
proof
  assume r: "force_session_resumption raw = Inr raw'"
  then obtain l where l: "layout_ok l" "raw = layout_bytes l" using force_Inr_layout by blast
  with r force_layout [OF l(1)]
  have "raw' = layout_bytes (l\<lparr>cl_flags := cl_flags l AND NOT 2\<rparr>)" by simp
  with l clean_cleared_and show "\<exists>l l'. layout_ok l \<and> raw = layout_bytes l \<and>
      clean_cleared l l' \<and> raw' = layout_bytes l'" by blast
next
  assume "\<exists>l l'. layout_ok l \<and> raw = layout_bytes l \<and> clean_cleared l l' \<and>
    raw' = layout_bytes l'"
  then show "force_session_resumption raw = Inr raw'"
    by (auto dest!: clean_cleared_unique simp: force_layout)
qed

lemma handshake_Inr:
  assumes "handshake C next1 next2 fd = Inr (client, hs)"
  shows "\<exists>parts connect.
    next1 \<lparr>fr_io = fd, fr_codec = VersionCodec, fr_read_buf = []\<rparr> =
      (parts, NextPacket (Version (hs_version hs))) \<and>
    next2 (parts\<lparr>fr_codec := codec_for C (hs_version hs)\<rparr>) = (client, NextPacket connect) \<and>
    mqtt_encode C (codec_for C (hs_version hs)) connect = Inr (hs_connect_raw hs) \<and>
    hs_keep_alive hs = keep_alive_of connect"
  using assms
  by (auto simp: handshake_def split: prod.splits next_result.splits mqtt_packet.splits sum.splits)

text \<open>
  The handshake survives migration. What a session learnt from the client's CONNECT
  (protocol version, raw CONNECT, keep alive) is recovered from the version byte and the
  CONNECT bytes its snapshot carries, for both protocol versions.
\<close>

lemma handshake_recovers:
  assumes "redecodes C" and "handshake C next1 next2 fd = Inr (client, hs)"
  shows "from_snapshot_version C (version_byte hs) (hs_connect_raw hs) = Inr hs"
proof -
  obtain p where "mqtt_encode C (codec_for C (hs_version hs)) p = Inr (hs_connect_raw hs)"
    and ka: "hs_keep_alive hs = keep_alive_of p"
    using handshake_Inr [OF assms(2)] by blast
  then obtain p' c rest where
    "mqtt_decode C (codec_for C (hs_version hs)) (hs_connect_raw hs) = (Inr (Some p'), c, rest)"
    and "keep_alive_of p' = hs_keep_alive hs"
    using assms(1) unfolding redecodes_def by metis
  then show ?thesis
    by (cases "hs_version hs") (simp_all add: from_snapshot_version_def version_byte_def)
qed

definition sample_hello :: "unit mqtt_packet" where
  "sample_hello = V3 (V3Connect \<lparr>con_keep_alive = 300, con_rest = ()\<rparr>)"

definition sample_hs :: handshake_state where
  "sample_hs = \<lparr>hs_version = MQTT3,
     hs_connect_raw = [16, 12, 0, 4, 77, 81, 84, 84, 4, 2, 1, 44, 0, 0], hs_keep_alive = 300\<rparr>"

end
