(* ===== verification/Keepalive.thy ===== *)
theory Keepalive
  imports Wire
begin

text \<open>
  Local keepalive termination (\<open>session/keepalive.rs\<close>): the instant at which a silent client
  is dropped, and the closing message. Instants and durations are nanoseconds; a keep alive
  is a \<open>u16\<close> number of seconds, so no product below exceeds the range of \<open>Duration\<close>.
\<close>

definition secs :: "nat \<Rightarrow> duration" where
  "secs n = n * 1000000000"

definition client_deadline :: "u16 \<Rightarrow> instant \<Rightarrow> instant" where
  "client_deadline keep_alive last_activity =
     (if keep_alive = 0 then last_activity + secs (3600 * 24 * 365)
      else last_activity + secs (unat keep_alive) * 3 div 2)"

definition keepalive_disconnect :: "'x mqtt_packet" where
  "keepalive_disconnect = V5 (V5Disconnect \<lparr>
     dis_reason_code = KeepAliveTimeout,
     dis_session_expiry_interval_secs = None,
     dis_server_reference = None,
     dis_reason_string = None,
     dis_user_properties = []\<rparr>)"

text \<open>The result of the send is discarded (\<open>let _ =\<close>).\<close>

definition close_for_keepalive :: "protocol_version \<Rightarrow> 'x world \<Rightarrow> 'x world" where
  "close_for_keepalive version w =
     (if version = MQTT5 then snd (client_send keepalive_disconnect w) else w)"

section \<open>Properties\<close>

text \<open>
  The deadline is one and a half keep alives after the last packet, to the nanosecond:
  twice the grace period is three times the keep alive, it is never shorter than the keep
  alive, it moves with the last activity, and a keep alive of zero gives a year.
\<close>

theorem client_deadline_exact:
  "2 * (client_deadline ka t - t) = (if ka = 0 then 2 * secs 31536000 else 3 * secs (unat ka)) \<and>
   t + secs (unat ka) \<le> client_deadline ka t \<and>
   client_deadline ka (t + d) = client_deadline ka t + d"
  by (auto simp: client_deadline_def secs_def)

lemma close_for_keepalive_log:
  "client_log (close_for_keepalive v w) =
   client_log w @ (if v = MQTT5 \<and> script_head (client_ok w) then [SendPacket keepalive_disconnect] else [])"
  "broker_log (close_for_keepalive v w) = broker_log w"
  by (auto simp: close_for_keepalive_def client_send_def client_do_def Let_def)

end
