(* ===== verification/Forward.thy ===== *)
theory Forward
  imports Registry Handshake Keepalive
begin

text \<open>
  The forward loop of a session (\<open>session/forward.rs\<close>): the replay of a session onto a fresh
  broker connection, freezing at a packet boundary, the connected and the outage phase of the
  loop, and the two entry points. One iteration of the loop is a function of the event that
  \<open>select!\<close> picked; which event that is, what the peers send and which writes fail is the
  environment's choice. Time is explicit: an event carries the instant at which it happens,
  and \<open>enabled\<close> says when the timers of an iteration that started at a given instant can fire.
\<close>

section \<open>Replaying the session onto a broker connection\<close>

text \<open>
  The loop over the dead connection's leftover bytes. Decoding belongs to the codec crate, so
  the loop runs on fuel; a codec that consumes bytes for every packet it yields needs no more
  than one unit per byte and one to stop.
\<close>

fun deliver_leftover ::
  "('x, 'c) rmqtt \<Rightarrow> nat \<Rightarrow> 'c mqtt_codec \<Rightarrow> bytes \<Rightarrow> ('x, unit) io" where
  "deliver_leftover C 0 codec buf = io_lift (Inl Diverged)"
| "deliver_leftover C (Suc fuel) codec buf =
     (case mqtt_decode C codec buf of
        (Inr (Some packet), codec', buf') \<Rightarrow>
          io_then (client_send packet) (deliver_leftover C fuel codec' buf')
      | (Inr None, codec', buf') \<Rightarrow> io_return ()
      | (Inl e, codec', buf') \<Rightarrow> io_return ())"

text \<open>The packet type of a buffered packet selects its window entry.\<close>

definition flush_entry ::
  "buffered_publish \<Rightarrow> inflight_windows \<Rightarrow> ('x, inflight_windows) io" where
  "flush_entry e w =
     (case bp_raw e of
        [] \<Rightarrow> io_lift (Inl (Panicked ''index out of bounds''))
      | b # bs \<Rightarrow>
          (let w' = (if drop_bit 4 b = 3 then insert_c2b_raw w (bp_packet_id e) C2BPublishSent (bp_raw e)
                     else if drop_bit 4 b = 6 then insert_c2b_raw w (bp_packet_id e) C2BPubrelSent (bp_raw e)
                     else w)
           in io_then (broker_write_all (bp_raw e)) (io_return w')))"

fun flush_buffer ::
  "buffered_publish list \<Rightarrow> inflight_windows \<Rightarrow> ('x, inflight_windows) io" where
  "flush_buffer [] w = io_return w"
| "flush_buffer (e # es) w = io_bind (flush_entry e w) (flush_buffer es)"

text \<open>The arguments that \<open>establish_broker\<close> changes.\<close>

record replay_state =
  rs_windows :: inflight_windows
  rs_buffer :: outage_buffer
  rs_leftover :: bytes
  rs_keep_alive :: u16

definition await_connack :: "u16 \<Rightarrow> ('x, u16) io" where
  "await_connack keep_alive =
     io_bind broker_read (\<lambda>r.
       case r of
         NextPacket (V3 (V3ConnectAck x)) \<Rightarrow> io_return keep_alive
       | NextPacket (V5 (V5ConnectAck ack)) \<Rightarrow>
           io_return (case ca_server_keepalive_sec ack of Some n \<Rightarrow> n | None \<Rightarrow> keep_alive)
       | NextPacket other \<Rightarrow> io_lift (Inl (invalid_data ''broker answered CONNECT replay''))
       | NextErr e \<Rightarrow> io_lift (Inl (invalid_data e))
       | NextNone \<Rightarrow> io_lift (Inl (IoError ConnectionAborted ''broker closed during CONNECT replay'')))"

definition resubscribe ::
  "('x, 'c) rmqtt \<Rightarrow> protocol_version \<Rightarrow> subscriptions \<Rightarrow> ('x, unit) io" where
  "resubscribe C version subs =
     (case resubscribe_packet C version subs of
        None \<Rightarrow> io_return ()
      | Some packet \<Rightarrow>
          io_then (broker_send packet)
          (io_bind broker_read (\<lambda>r.
             case r of
               NextPacket p \<Rightarrow> io_return ()
             | NextErr e \<Rightarrow> io_lift (Inl (invalid_data e))
             | NextNone \<Rightarrow> io_lift (Inl (IoError ConnectionAborted ''broker closed during re-SUBSCRIBE'')))))"

definition establish_broker ::
  "('x, 'c) rmqtt \<Rightarrow> protocol_version \<Rightarrow> bytes \<Rightarrow> subscriptions \<Rightarrow> replay_state \<Rightarrow>
   ('x, replay_state) io" where
  "establish_broker C version connect_raw subs s =
     io_bind (io_lift (force_session_resumption connect_raw)) (\<lambda>connect_raw'.
     io_then (broker_write_all connect_raw') (io_then broker_flush (
     io_bind (await_connack (rs_keep_alive s)) (\<lambda>keep_alive.
     io_then (resubscribe C version subs) (
     io_then (deliver_leftover C (Suc (length (rs_leftover s))) (codec_for C version) (rs_leftover s)) (
     io_bind (io_lift (broker_retransmits (rs_windows s))) (\<lambda>to_broker.
     io_then (io_for broker_write_all to_broker) (
     io_bind (io_lift (client_retransmits (rs_windows s))) (\<lambda>to_client.
     io_then (io_for client_write_all to_client) (
     io_bind (flush_buffer (ob_entries (rs_buffer s)) (rs_windows s)) (\<lambda>windows.
     io_then broker_flush (io_then client_flush (
     io_return \<lparr>rs_windows = windows, rs_buffer = outage_buffer_default, rs_leftover = [],
                rs_keep_alive = keep_alive\<rparr>)))))))))))))"

section \<open>Freezing\<close>

text \<open>
  What the coordinator does with the reply: it is gone (the frozen session comes back), it
  resumes the session with a frozen session, or it drops the resume channel.
\<close>

datatype coordinator = ReplyRefused | ResumedWith frozen_session | ResumeDropped

datatype 'c freeze_outcome = FreezeResume "'c framed" "'c framed option" | FreezeExit

definition freeze_snapshot ::
  "u64 \<Rightarrow> 'c framed \<Rightarrow> 'c framed option \<Rightarrow> handshake_state \<Rightarrow> inflight_windows \<Rightarrow>
   subscriptions \<Rightarrow> outage_buffer \<Rightarrow> frozen_session" where
  "freeze_snapshot i client broker hs windows subs buffer =
     \<lparr>fz_id = i,
      fz_snapshot = \<lparr>
        ss_version = version_byte hs,
        ss_connect_raw = hs_connect_raw hs,
        ss_client_buf = fr_read_buf client,
        ss_broker_buf = (case broker of Some b \<Rightarrow> fr_read_buf b | None \<Rightarrow> []),
        ss_windows = snapshot windows,
        ss_subscriptions = subs,
        ss_buffered = ob_entries buffer\<rparr>,
      fz_client_fd = fr_io client\<rparr>"

definition restore_parts ::
  "'c framed \<Rightarrow> 'c framed option \<Rightarrow> frozen_session \<Rightarrow> 'c freeze_outcome" where
  "restore_parts cp bp frozen =
     FreezeResume
       (cp\<lparr>fr_read_buf := fr_read_buf cp @ ss_client_buf (fz_snapshot frozen)\<rparr>)
       (map_option (\<lambda>b. b\<lparr>fr_read_buf := fr_read_buf b @ ss_broker_buf (fz_snapshot frozen)\<rparr>) bp)"

definition handle_freeze ::
  "coordinator \<Rightarrow> u64 \<Rightarrow> 'c framed \<Rightarrow> 'c framed option \<Rightarrow> handshake_state \<Rightarrow>
   inflight_windows \<Rightarrow> subscriptions \<Rightarrow> outage_buffer \<Rightarrow> 'c freeze_outcome" where
  "handle_freeze coord i client broker hs windows subs buffer =
     (let frozen = freeze_snapshot i client broker hs windows subs buffer;
          cp = client\<lparr>fr_read_buf := []\<rparr>;
          bp = map_option (\<lambda>b. b\<lparr>fr_read_buf := []\<rparr>) broker
      in case coord of
           ReplyRefused \<Rightarrow> restore_parts cp bp frozen
         | ResumedWith returned \<Rightarrow> restore_parts cp bp returned
         | ResumeDropped \<Rightarrow> FreezeExit)"

section \<open>The loop\<close>

definition is_retryable_disconnect :: "'x disconnect_reason \<Rightarrow> bool" where
  "is_retryable_disconnect reason \<longleftrightarrow>
     reason \<in> {NormalDisconnection, ServerShuttingDown, ServerBusy, UseAnotherServer, ServerMoved}"

datatype outage_step = Connect | Backoff duration

record 'c session =
  s_id :: u64
  s_client :: "'c framed"
  s_broker :: "'c framed option"
  s_hs :: handshake_state
  s_windows :: inflight_windows
  s_subscriptions :: subscriptions
  s_buffer :: outage_buffer
  s_leftover :: bytes
  s_backoff :: duration
  s_step :: outage_step
  s_last_activity :: instant

text \<open>
  The branches of \<open>select!\<close>: a read of either connection completes (with the connection as it
  is afterwards), the control channel yields a freeze request or is closed, the connect
  attempt or backoff sleep ends, the keepalive deadline passes. A connect attempt that
  succeeds comes with the broker connection as the reads of the replay leave it.
\<close>

datatype ('x, 'c) event =
    EvClient "'c framed" "'x next_result"
  | EvBroker "'c framed" "'x next_result"
  | EvFreeze coordinator
  | EvControlClosed
  | EvWait "'c framed option"
  | EvDeadline

text \<open>
  One iteration yields the session that goes on (\<open>Some\<close>), the end of the session
  (\<open>None\<close>), or an error.
\<close>

type_synonym ('x, 'c) iteration = "('x, 'c session option) io"

definition end_session :: "('x, 'c) iteration" where
  "end_session = io_return None"

definition freeze_branch :: "coordinator \<Rightarrow> 'c session \<Rightarrow> ('x, 'c) iteration" where
  "freeze_branch coord s =
     (case handle_freeze coord (s_id s) (s_client s) (s_broker s) (s_hs s) (s_windows s)
             (s_subscriptions s) (s_buffer s) of
        FreezeResume c b \<Rightarrow> io_return (Some (s\<lparr>s_client := c, s_broker := b\<rparr>))
      | FreezeExit \<Rightarrow> end_session)"

definition deadline_branch :: "'c session \<Rightarrow> ('x, 'c) iteration" where
  "deadline_branch s w = (Inr None, close_for_keepalive (hs_version (s_hs s)) w)"

definition local_pong :: "'x mqtt_packet \<Rightarrow> ('x, unit) io" where
  "local_pong p =
     (case p of
        V3 V3PingRequest \<Rightarrow> client_send (V3 V3PingResponse)
      | V5 V5PingRequest \<Rightarrow> client_send (V5 V5PingResponse)
      | _ \<Rightarrow> io_return ())"

definition forward_to_broker :: "'x mqtt_packet \<Rightarrow> 'c session \<Rightarrow> ('x, 'c) iteration" where
  "forward_to_broker p s w =
     (case broker_send p w of
        (Inl e, w') \<Rightarrow> (Inr (Some (s\<lparr>s_broker := None\<rparr>)), w')
      | (Inr u, w') \<Rightarrow> (Inr (Some s), w'))"

definition connected_client ::
  "('x, 'c) rmqtt \<Rightarrow> instant \<Rightarrow> 'c framed \<Rightarrow> 'x next_result \<Rightarrow> 'c session \<Rightarrow> ('x, 'c) iteration" where
  "connected_client C now client r s =
     (case r of
        NextPacket p \<Rightarrow>
          io_then (local_pong p)
          (io_bind (io_lift (track_c2b C (s_windows s) p)) (\<lambda>windows.
             forward_to_broker p
               (s\<lparr>s_client := client, s_last_activity := now, s_windows := windows,
                  s_subscriptions := sub_track C p (s_subscriptions s)\<rparr>)))
      | NextErr e \<Rightarrow> io_lift (Inl (invalid_data e))
      | NextNone \<Rightarrow> end_session)"

definition lose_broker :: "'c framed \<Rightarrow> 'c session \<Rightarrow> 'c session" where
  "lose_broker b s = s\<lparr>s_broker := None, s_leftover := fr_read_buf b\<rparr>"

definition is_pong :: "'x mqtt_packet \<Rightarrow> bool" where
  "is_pong p = (case p of V3 V3PingResponse \<Rightarrow> True | V5 V5PingResponse \<Rightarrow> True | _ \<Rightarrow> False)"

definition connected_broker ::
  "('x, 'c) rmqtt \<Rightarrow> 'c framed \<Rightarrow> 'x next_result \<Rightarrow> 'c session \<Rightarrow> ('x, 'c) iteration" where
  "connected_broker C b r s =
     (case r of
        NextPacket (V5 (V5Disconnect d)) \<Rightarrow>
          (if is_retryable_disconnect (dis_reason_code d)
           then io_return (Some (lose_broker b s))
           else io_then (client_send (V5 (V5Disconnect d))) end_session)
      | NextPacket p \<Rightarrow>
          (if is_pong p then io_return (Some (s\<lparr>s_broker := Some b\<rparr>))
           else io_bind (io_lift (track_b2c C (s_windows s) p)) (\<lambda>windows.
                io_then (client_send p)
                (io_return (Some (s\<lparr>s_broker := Some b, s_windows := windows\<rparr>)))))
      | NextErr e \<Rightarrow> io_return (Some (lose_broker b s))
      | NextNone \<Rightarrow> io_return (Some (lose_broker b s)))"

definition connected_phase ::
  "('x, 'c) rmqtt \<Rightarrow> instant \<Rightarrow> ('x, 'c) event \<Rightarrow> 'c session \<Rightarrow> ('x, 'c) iteration" where
  "connected_phase C now ev s =
     (case ev of
        EvClient client r \<Rightarrow> connected_client C now client r s
      | EvBroker b r \<Rightarrow> connected_broker C b r s
      | EvFreeze coord \<Rightarrow> freeze_branch coord s
      | EvControlClosed \<Rightarrow> end_session
      | EvDeadline \<Rightarrow> deadline_branch s
      | EvWait b \<Rightarrow> io_return (Some s))"

definition outage_client ::
  "('x, 'c) rmqtt \<Rightarrow> instant \<Rightarrow> 'c framed \<Rightarrow> 'x next_result \<Rightarrow> 'c session \<Rightarrow> ('x, 'c) iteration" where
  "outage_client C now client r s =
     (case r of
        NextPacket p \<Rightarrow>
          io_bind (service_outage_packet C p \<lparr>os_buffer = s_buffer s,
              os_subscriptions = s_subscriptions s, os_windows = s_windows s\<rparr>) (\<lambda>st.
          io_return (Some (s\<lparr>s_client := client, s_last_activity := now, s_buffer := os_buffer st,
              s_subscriptions := os_subscriptions st, s_windows := os_windows st\<rparr>)))
      | NextErr e \<Rightarrow> io_lift (Inl (invalid_data e))
      | NextNone \<Rightarrow> end_session)"

definition outage_connected ::
  "('x, 'c) rmqtt \<Rightarrow> 'c framed \<Rightarrow> 'c session \<Rightarrow> ('x, 'c) iteration" where
  "outage_connected C b s =
     io_bind (establish_broker C (hs_version (s_hs s)) (hs_connect_raw (s_hs s)) (s_subscriptions s)
         \<lparr>rs_windows = s_windows s, rs_buffer = s_buffer s, rs_leftover = s_leftover s,
          rs_keep_alive = hs_keep_alive (s_hs s)\<rparr>) (\<lambda>st.
     io_return (Some (s\<lparr>
       s_broker := Some b,
       s_windows := rs_windows st, s_buffer := rs_buffer st, s_leftover := rs_leftover st,
       s_hs := (s_hs s)\<lparr>hs_keep_alive := rs_keep_alive st\<rparr>,
       s_backoff := BROKER_RETRY_INITIAL, s_step := Connect\<rparr>)))"

definition outage_retry :: "'c session \<Rightarrow> 'c session" where
  "outage_retry s =
     (case s_step s of
        Connect \<Rightarrow> s\<lparr>s_step := Backoff (s_backoff s),
                     s_backoff := min (s_backoff s * 2) BROKER_RETRY_MAX\<rparr>
      | Backoff d \<Rightarrow> s\<lparr>s_step := Connect\<rparr>)"

definition outage_phase ::
  "('x, 'c) rmqtt \<Rightarrow> instant \<Rightarrow> ('x, 'c) event \<Rightarrow> 'c session \<Rightarrow> ('x, 'c) iteration" where
  "outage_phase C now ev s =
     (case ev of
        EvClient client r \<Rightarrow> outage_client C now client r s
      | EvFreeze coord \<Rightarrow> freeze_branch coord s
      | EvControlClosed \<Rightarrow> end_session
      | EvWait (Some b) \<Rightarrow> outage_connected C b s
      | EvWait None \<Rightarrow> io_return (Some (outage_retry s))
      | EvDeadline \<Rightarrow> deadline_branch s
      | EvBroker b r \<Rightarrow> io_return (Some s))"

definition forward_step ::
  "('x, 'c) rmqtt \<Rightarrow> instant \<Rightarrow> ('x, 'c) event \<Rightarrow> 'c session \<Rightarrow> ('x, 'c) iteration" where
  "forward_step C now ev s =
     (if s_broker s \<noteq> None then connected_phase C now ev s else outage_phase C now ev s)"

text \<open>
  When an event can be picked by an iteration that started at \<open>t0\<close>: broker reads only while
  connected, the retry branch only during an outage; a connect attempt may end at any time, a
  backoff sleep, begun anew by every iteration, only after its duration and never with a
  stream; the deadline branch once the deadline has passed.
\<close>

definition enabled :: "instant \<Rightarrow> instant \<Rightarrow> ('x, 'c) event \<Rightarrow> 'c session \<Rightarrow> bool" where
  "enabled t0 now ev s \<longleftrightarrow> t0 \<le> now \<and>
     (case ev of
        EvClient client r \<Rightarrow> True
      | EvBroker b r \<Rightarrow> s_broker s \<noteq> None
      | EvFreeze coord \<Rightarrow> True
      | EvControlClosed \<Rightarrow> True
      | EvWait b \<Rightarrow> s_broker s = None \<and>
          (case s_step s of Connect \<Rightarrow> True | Backoff d \<Rightarrow> b = None \<and> t0 + d \<le> now)
      | EvDeadline \<Rightarrow> client_deadline (hs_keep_alive (s_hs s)) (s_last_activity s) \<le> now)"

section \<open>Entry points\<close>

definition server_keepalive :: "'x mqtt_packet \<Rightarrow> handshake_state \<Rightarrow> handshake_state" where
  "server_keepalive ack hs =
     (case ack of
        V5 (V5ConnectAck a) \<Rightarrow>
          (case ca_server_keepalive_sec a of
             Some n \<Rightarrow> hs\<lparr>hs_keep_alive := n\<rparr>
           | None \<Rightarrow> hs)
      | _ \<Rightarrow> hs)"

text \<open>The session before its first iteration, registered and with the loop's initial state.\<close>

definition start_loop ::
  "'tx \<Rightarrow> 'tx registry \<Rightarrow> 'c framed \<Rightarrow> 'c framed \<Rightarrow> handshake_state \<Rightarrow> instant \<Rightarrow>
   'c session \<times> 'tx registry" where
  "start_loop tx registry client b hs now =
     (let (i, registry') = register tx registry
      in (\<lparr>s_id = i, s_client = client, s_broker = Some b,
           s_hs = hs, s_windows = windows_new, s_subscriptions = [],
           s_buffer = outage_buffer_default, s_leftover = [], s_backoff = BROKER_RETRY_INITIAL,
           s_step = Connect, s_last_activity = now\<rparr>, registry'))"

text \<open>
  \<open>connect\<close> is the result of the connection attempt: the framed broker connection as it is
  once the CONNACK has been read.
\<close>

definition run_session ::
  "('x, 'c) rmqtt \<Rightarrow> ('c framed \<Rightarrow> 'c framed \<times> 'x next_result) \<Rightarrow>
   ('c framed \<Rightarrow> 'c framed \<times> 'x next_result) \<Rightarrow> raw_fd \<Rightarrow> 'c framed option \<Rightarrow> instant \<Rightarrow>
   'tx \<Rightarrow> 'tx registry \<Rightarrow> ('x, 'c session \<times> 'tx registry) io" where
  "run_session C next1 next2 client connect now tx registry =
     io_bind (io_lift (handshake C next1 next2 client)) (\<lambda>(client, hs).
     io_bind (io_lift (ok_or (IoError OtherIo ''connect'') connect)) (\<lambda>b.
     io_then (broker_write_all (hs_connect_raw hs)) (io_then broker_flush (
     io_bind broker_read (\<lambda>r.
     case r of
       NextErr e \<Rightarrow> io_lift (Inl (invalid_data e))
     | NextNone \<Rightarrow> io_lift (Inl (IoError ConnectionAborted ''broker closed during handshake''))
     | NextPacket ack \<Rightarrow>
         io_then (client_send ack)
           (io_return (start_loop tx registry client b (server_keepalive ack hs) now)))))))"

text \<open>When the task of a session ends, for whatever reason, its registration is dropped.\<close>

definition registration_drop :: "u64 \<Rightarrow> 'tx registry \<Rightarrow> 'tx registry" where
  "registration_drop i registry = unregister i registry"

text \<open>\<open>sock_ok\<close> says whether the adopted descriptor could be made a non-blocking stream.\<close>

definition adopt_session ::
  "('x, 'c) rmqtt \<Rightarrow> raw_fd \<Rightarrow> session_snapshot \<Rightarrow> bool \<Rightarrow> instant \<Rightarrow> 'tx \<Rightarrow> 'tx registry \<Rightarrow>
   ('c session \<times> 'tx registry) res" where
  "adopt_session C client_fd snap sock_ok now tx registry =
     rbind (from_snapshot_version C (ss_version snap) (ss_connect_raw snap)) (\<lambda>hs.
     if \<not> sock_ok then Inl (IoError OtherIo ''from_std'')
     else let (i, registry') = register tx registry
          in Inr (\<lparr>
               s_id = i,
               s_client = \<lparr>fr_io = client_fd, fr_codec = codec_for C (hs_version hs),
                           fr_read_buf = ss_client_buf snap\<rparr>,
               s_broker = None, s_hs = hs, s_windows = from_snapshot (ss_windows snap),
               s_subscriptions = ss_subscriptions snap,
               s_buffer = \<lparr>ob_entries = ss_buffered snap,
                           ob_bytes = sum_list (map (length \<circ> bp_raw) (ss_buffered snap))\<rparr>,
               s_leftover = ss_broker_buf snap, s_backoff = BROKER_RETRY_INITIAL, s_step = Connect,
               s_last_activity = now\<rparr>, registry'))"

end
