(* ===== verification/Replay.thy ===== *)
theory Replay
  imports Forward
begin

text \<open>
  Correctness of the replay onto a fresh broker connection (\<open>establish_broker\<close>): it neither
  panics nor loops, what it puts on the two connections is determined exactly, and it
  succeeds whenever the broker answers and no write fails.
\<close>

section \<open>Specification\<close>

text \<open>A codec consumes bytes for every packet it yields.\<close>

definition decode_consumes :: "('x, 'c) rmqtt \<Rightarrow> bool" where
  "decode_consumes C \<longleftrightarrow> (\<forall>c buf p c' buf'. mqtt_decode C c buf = (Inr (Some p), c', buf') \<longrightarrow>
     length buf' < length buf)"

text \<open>The complete packets at the front of a byte string.\<close>

fun decoded :: "('x, 'c) rmqtt \<Rightarrow> nat \<Rightarrow> 'c mqtt_codec \<Rightarrow> bytes \<Rightarrow> 'x mqtt_packet list" where
  "decoded C 0 codec buf = []"
| "decoded C (Suc fuel) codec buf =
     (case mqtt_decode C codec buf of
        (Inr (Some packet), codec', buf') \<Rightarrow> packet # decoded C fuel codec' buf'
      | _ \<Rightarrow> [])"

definition leftover_packets :: "('x, 'c) rmqtt \<Rightarrow> protocol_version \<Rightarrow> bytes \<Rightarrow> 'x mqtt_packet list" where
  "leftover_packets C version buf = decoded C (Suc (length buf)) (codec_for C version) buf"

text \<open>The window entry a flushed packet gets.\<close>

definition flush_window :: "buffered_publish \<Rightarrow> inflight_windows \<Rightarrow> inflight_windows" where
  "flush_window e w =
     (if type_nibble (bp_raw e) = Some 3 then insert_c2b_raw w (bp_packet_id e) C2BPublishSent (bp_raw e)
      else if type_nibble (bp_raw e) = Some 6 then insert_c2b_raw w (bp_packet_id e) C2BPubrelSent (bp_raw e)
      else w)"

fun is_connack :: "'x mqtt_packet \<Rightarrow> bool" where
  "is_connack (V3 (V3ConnectAck x)) = True"
| "is_connack (V5 (V5ConnectAck a)) = True"
| "is_connack p = False"

fun connack_keep_alive :: "'x mqtt_packet \<Rightarrow> u16 \<Rightarrow> u16" where
  "connack_keep_alive (V5 (V5ConnectAck a)) ka =
     (case ca_server_keepalive_sec a of Some n \<Rightarrow> n | None \<Rightarrow> ka)"
| "connack_keep_alive p ka = ka"

section \<open>No panic, no divergence\<close>

definition orderly_io :: "('x, 'a) io \<Rightarrow> bool" where
  "orderly_io m \<longleftrightarrow> (\<forall>w. orderly (fst (m w)))"

lemma orderly_bind [intro]:
  "orderly_io m \<Longrightarrow> (\<And>a. orderly_io (f a)) \<Longrightarrow> orderly_io (io_bind m f)"
proof (unfold orderly_io_def, intro allI)
  fix w :: "'a world"
  assume m: "\<forall>w. orderly (fst (m w))" and f: "\<And>a. \<forall>w. orderly (fst (f a w))"
  obtain r w' where r: "m w = (r, w')" by (cases "m w")
  show "orderly (fst (io_bind m f w))"
  proof (cases r)
    case (Inl e)
    with m [rule_format, of w] r show ?thesis by (cases e) (auto simp: io_bind_def)
  next
    case (Inr a)
    with f r show ?thesis by (simp add: io_bind_def)
  qed
qed

lemma orderly_then [intro]: "orderly_io m \<Longrightarrow> orderly_io n \<Longrightarrow> orderly_io (io_then m n)"
  by (auto simp: io_then_def)

lemma orderly_return [simp]: "orderly_io (io_return a)"
  by (simp add: orderly_io_def)

lemma orderly_lift [simp]: "orderly_io (io_lift r) \<longleftrightarrow> orderly r"
  by (simp add: orderly_io_def)

lemma orderly_do:
  "orderly (Inl e :: unit res) \<Longrightarrow> orderly_io (client_do e os)"
  "orderly (Inl e :: unit res) \<Longrightarrow> orderly_io (broker_do e os)"
  by (cases e; simp add: orderly_io_def client_do_def broker_do_def Let_def)+

lemma orderly_ops [simp]:
  "orderly_io (client_send p)" "orderly_io (broker_send p)"
  "orderly_io (client_write_all raw)" "orderly_io (broker_write_all raw)"
  "orderly_io client_flush" "orderly_io broker_flush" "orderly_io broker_read"
  by (simp_all add: wire_ops orderly_do invalid_data_def)
    (simp add: orderly_io_def broker_read_def split: list.splits)

lemma orderly_for: "(\<And>a. orderly_io (f a)) \<Longrightarrow> orderly_io (io_for f as)"
  by (induction as) auto

lemma orderly_leftover:
  assumes "decode_consumes C"
  shows "length buf < fuel \<Longrightarrow> orderly_io (deliver_leftover C fuel codec buf)"
proof (induction fuel arbitrary: codec buf)
  case 0
  then show ?case by simp
next
  case (Suc fuel)
  show ?case
  proof (cases "mqtt_decode C codec buf")
    case (fields r codec' buf')
    show ?thesis
    proof (cases "\<exists>p. r = Inr (Some p)")
      case True
      then obtain p where p: "r = Inr (Some p)" by blast
      with fields assms have "length buf' < length buf" by (auto simp: decode_consumes_def)
      with Suc p fields show ?thesis by auto
    next
      case False
      with fields show ?thesis by (auto split: sum.splits option.splits)
    qed
  qed
qed

lemma orderly_flush:
  "(\<And>e. e \<in> set es \<Longrightarrow> bp_raw e \<noteq> []) \<Longrightarrow> orderly_io (flush_buffer es w)"
proof (induction es arbitrary: w)
  case (Cons e es)
  have "orderly_io (flush_entry e w)"
    using Cons.prems [of e] by (auto simp: flush_entry_def Let_def split: list.splits)
  with Cons show ?case by auto
qed simp

lemma orderly_skip: "orderly (skip_remaining_length raw i)"
  by (induction raw i rule: skip_remaining_length.induct)
    (subst skip_remaining_length.simps, auto simp: malformed_connect_def split: option.splits)

lemma orderly_rbind: "orderly m \<Longrightarrow> (\<And>a. orderly (f a)) \<Longrightarrow> orderly (rbind m f)"
  by (cases m rule: orderly.cases) auto

lemma orderly_ok_or [simp]: "orderly (ok_or (IoError k m) x)"
  by (cases x) auto

lemma orderly_force: "orderly (force_session_resumption raw)"
  unfolding force_session_resumption_def Let_def
  by (intro orderly_rbind orderly_skip) (simp_all add: malformed_connect_def)

lemma orderly_await: "orderly_io (await_connack ka)"
  unfolding await_connack_def
  by (intro orderly_bind)
    (auto simp: invalid_data_def split: next_result.splits packet_splits)

lemma orderly_resubscribe: "orderly_io (resubscribe C v subs)"
  by (auto simp: resubscribe_def invalid_data_def split: option.splits next_result.splits
      intro!: orderly_then orderly_bind)

lemma buffer_raw_nonempty: "buffer_inv b \<Longrightarrow> e \<in> set (ob_entries b) \<Longrightarrow> bp_raw e \<noteq> []"
  by (auto simp: buffer_inv_def dest!: bspec type_nibble_nonempty)

lemma orderly_establish:
  assumes "decode_consumes C" and "window_inv (rs_windows s)" and "buffer_inv (rs_buffer s)"
  shows "orderly_io (establish_broker C version raw subs s)"
  unfolding establish_broker_def
  by (intro orderly_bind orderly_then)
    (simp_all add: orderly_force orderly_await orderly_resubscribe orderly_leftover [OF assms(1)]
      del: deliver_leftover.simps add: broker_retransmits_eq [OF assms(2)] client_retransmits_eq [OF assms(2)] orderly_for
      orderly_flush buffer_raw_nonempty [OF assms(3)])

section \<open>What the replay writes\<close>

lemma leftover_log:
  "deliver_leftover C fuel codec buf w = (Inr u, w') \<Longrightarrow>
   client_log w' = client_log w @ map SendPacket (decoded C fuel codec buf) \<and>
   broker_log w' = broker_log w \<and> broker_next w' = broker_next w"
proof (induction fuel arbitrary: codec buf w)
  case 0
  then show ?case by simp
next
  case (Suc fuel)
  show ?case
  proof (cases "\<exists>p codec' buf'. mqtt_decode C codec buf = (Inr (Some p), codec', buf')")
    case True
    then obtain p codec' buf' where d: "mqtt_decode C codec buf = (Inr (Some p), codec', buf')"
      by blast
    with Suc.prems obtain w1 where "client_send p w = (Inr (), w1)"
      and run: "deliver_leftover C fuel codec' buf' w1 = (Inr u, w')"
      by (auto simp: io_then_eq_Inr)
    note log = emitsD [OF emits_writes(1) this(1)]
    from Suc.IH [OF run] log d show ?thesis by simp
  next
    case False
    with Suc.prems show ?thesis
      by (auto split: prod.splits sum.splits option.splits)
  qed
qed

lemma flush_entry_Inr:
  assumes "flush_entry e win w = (Inr win', w')"
  shows "win' = flush_window e win \<and> client_log w' = client_log w \<and>
    broker_log w' = broker_log w @ [WriteRaw (bp_raw e)] \<and> broker_next w' = broker_next w"
  using assms emitsD [OF emits_writes(4)]
  by (auto simp: flush_entry_def flush_window_def Let_def io_then_eq_Inr split: list.splits)

lemma flush_buffer_Inr:
  "flush_buffer es win w = (Inr win', w') \<Longrightarrow>
   win' = fold flush_window es win \<and> client_log w' = client_log w \<and>
   broker_log w' = broker_log w @ map (WriteRaw \<circ> bp_raw) es \<and> broker_next w' = broker_next w"
  by (induction es arbitrary: win w) (auto simp: io_bind_eq_Inr dest!: flush_entry_Inr)

lemma await_Inr:
  "await_connack ka w = (Inr ka', w') \<Longrightarrow>
   \<exists>ack. is_connack ack \<and> ka' = connack_keep_alive ack ka \<and> client_log w' = client_log w \<and>
     broker_log w' = broker_log w \<and> broker_next w = NextPacket ack # broker_next w'"
  by (auto simp: await_connack_def io_bind_eq_Inr broker_read_def
      split: list.splits next_result.splits packet_splits option.splits)

lemma broker_read_Inr:
  "broker_read w = (Inr r, w') \<longleftrightarrow>
   (broker_next w = [] \<and> r = NextNone \<and> w' = w) \<or>
   (\<exists>rs. broker_next w = r # rs \<and> w' = w\<lparr>broker_next := rs\<rparr>)"
  by (auto simp: broker_read_def split: list.splits)

lemma resubscribe_Inr:
  assumes "resubscribe C v subs w = (Inr u, w')"
  shows "client_log w' = client_log w \<and>
   broker_log w' = broker_log w @
     (case resubscribe_packet C v subs of None \<Rightarrow> [] | Some p \<Rightarrow> [SendPacket p])"
proof (cases "resubscribe_packet C v subs")
  case None
  with assms show ?thesis by (simp add: resubscribe_def)
next
  case (Some p)
  with assms obtain w1 r w2 where send: "broker_send p w = (Inr (), w1)"
    and read: "broker_read w1 = (Inr r, w2)"
    and rest: "(case r of NextPacket q \<Rightarrow> io_return () | NextErr e \<Rightarrow> io_lift (Inl (invalid_data e))
       | NextNone \<Rightarrow> io_lift (Inl (IoError ConnectionAborted ''broker closed during re-SUBSCRIBE''))) w2
       = (Inr u, w')"
    by (auto simp: resubscribe_def io_bind_eq_Inr io_then_eq_Inr)
  have "w' = w2" using rest by (cases r) auto
  with emitsD [OF emits_writes(2) send] read Some show ?thesis
    by (auto simp: broker_read_Inr)
qed

text \<open>A successful replay, with its outputs in full.\<close>

lemma establish_Inr:
  assumes "establish_broker C v raw subs s w = (Inr s', w')" and "window_inv (rs_windows s)"
  shows "\<exists>raw' ack rs bs cs. force_session_resumption raw = Inr raw' \<and> is_connack ack \<and>
    broker_next w = NextPacket ack # rs \<and>
    broker_retransmits (rs_windows s) = Inr bs \<and> client_retransmits (rs_windows s) = Inr cs \<and>
    s' = \<lparr>rs_windows = fold flush_window (ob_entries (rs_buffer s)) (rs_windows s),
          rs_buffer = outage_buffer_default, rs_leftover = [],
          rs_keep_alive = connack_keep_alive ack (rs_keep_alive s)\<rparr> \<and>
    broker_log w' = broker_log w @ [WriteRaw raw'] @
      (case resubscribe_packet C v subs of None \<Rightarrow> [] | Some p \<Rightarrow> [SendPacket p]) @
      map WriteRaw bs @ map (WriteRaw \<circ> bp_raw) (ob_entries (rs_buffer s)) \<and>
    client_log w' = client_log w @
      map SendPacket (leftover_packets C v (rs_leftover s)) @ map WriteRaw cs"
proof -
  obtain bs cs where bs: "broker_retransmits (rs_windows s) = Inr bs"
    and cs: "client_retransmits (rs_windows s) = Inr cs"
    using assms(2) by (simp add: broker_retransmits_eq client_retransmits_eq)
  from assms(1) bs cs obtain raw' ka win w1 w2 w3 w4 w5 w6 w7 w8 w9 w10 where
    force: "force_session_resumption raw = Inr raw'"
    and e1: "broker_write_all raw' w = (Inr (), w1)" and e2: "broker_flush w1 = (Inr (), w2)"
    and e3: "await_connack (rs_keep_alive s) w2 = (Inr ka, w3)"
    and e4: "resubscribe C v subs w3 = (Inr (), w4)"
    and e5: "deliver_leftover C (Suc (length (rs_leftover s))) (codec_for C v) (rs_leftover s) w4
      = (Inr (), w5)"
    and e6: "io_for broker_write_all bs w5 = (Inr (), w6)"
    and e7: "io_for client_write_all cs w6 = (Inr (), w7)"
    and e8: "flush_buffer (ob_entries (rs_buffer s)) (rs_windows s) w7 = (Inr win, w8)"
    and e9: "broker_flush w8 = (Inr (), w9)" and e10: "client_flush w9 = (Inr (), w10)"
    and s': "s' = \<lparr>rs_windows = win, rs_buffer = outage_buffer_default, rs_leftover = [],
      rs_keep_alive = ka\<rparr>" and w': "w' = w10"
    by (auto simp: establish_broker_def io_bind_eq_Inr io_then_eq_Inr
        simp del: deliver_leftover.simps)
  obtain ack where ack: "is_connack ack" "ka = connack_keep_alive ack (rs_keep_alive s)"
    and log3: "client_log w3 = client_log w2" "broker_log w3 = broker_log w2"
      "broker_next w2 = NextPacket ack # broker_next w3"
    using await_Inr [OF e3] by blast
  note logs = emitsD [OF emits_writes(4) e1] emitsD [OF emits_writes(6) e2] log3(1,2)
    resubscribe_Inr [OF e4] leftover_log [OF e5] emitsD [OF emits_for_broker_write e6]
    emitsD [OF emits_for_client_write e7] flush_buffer_Inr [OF e8]
    emitsD [OF emits_writes(6) e9] emitsD [OF emits_writes(5) e10]
  have blog: "broker_log w' = broker_log w @ [WriteRaw raw'] @
      (case resubscribe_packet C v subs of None \<Rightarrow> [] | Some p \<Rightarrow> [SendPacket p]) @
      map WriteRaw bs @ map (WriteRaw \<circ> bp_raw) (ob_entries (rs_buffer s))"
    using logs by (simp add: w' del: decoded.simps)
  have clog: "client_log w' = client_log w @
      map SendPacket (leftover_packets C v (rs_leftover s)) @ map WriteRaw cs"
    using logs by (simp add: w' leftover_packets_def del: decoded.simps)
  have "win = fold flush_window (ob_entries (rs_buffer s)) (rs_windows s)"
    using flush_buffer_Inr [OF e8] by simp
  moreover have "broker_next w = NextPacket ack # broker_next w3"
    using log3(3) emitsD(3) [OF emits_writes(4) e1] emitsD(3) [OF emits_writes(6) e2] by simp
  ultimately show ?thesis using force ack bs cs s' blog clog by blast
qed

section \<open>The replay succeeds\<close>

lemma safe_step:
  assumes "safe m" and "emits m cs bs" and "all_ok w"
  shows "\<exists>w'. m w = (Inr (), w') \<and> all_ok w' \<and> broker_next w' = broker_next w"
  using assms by (auto simp: safe_def emits_def)

lemma safe_leftover:
  assumes "decode_consumes C"
  shows "length buf < fuel \<Longrightarrow> safe (deliver_leftover C fuel codec buf)"
proof (induction fuel arbitrary: codec buf)
  case 0
  then show ?case by simp
next
  case (Suc fuel)
  show ?case
  proof (cases "\<exists>p codec' buf'. mqtt_decode C codec buf = (Inr (Some p), codec', buf')")
    case True
    then obtain p codec' buf' where d: "mqtt_decode C codec buf = (Inr (Some p), codec', buf')"
      by blast
    with assms have "length buf' < length buf" by (auto simp: decode_consumes_def)
    with Suc d show ?thesis by (auto intro: safe_then safe_writes)
  next
    case False
    then show ?thesis by (auto simp: safe_return split: prod.splits sum.splits option.splits)
  qed
qed

lemma flush_buffer_succeeds:
  assumes "all_ok w" and "\<And>e. e \<in> set es \<Longrightarrow> bp_raw e \<noteq> []"
  shows "\<exists>win' w'. flush_buffer es win w = (Inr win', w') \<and> all_ok w'"
  using assms
proof (induction es arbitrary: w win)
  case Nil
  then show ?case by simp
next
  case (Cons e es)
  obtain w1 where "broker_write_all (bp_raw e) w = (Inr (), w1)" and w1: "all_ok w1"
    using safe_step [OF safe_writes(4) emits_writes(4) Cons.prems(1)] by blast
  then have "\<exists>win1. flush_entry e win w = (Inr win1, w1)"
    using Cons.prems(2) [of e]
    by (auto simp: flush_entry_def io_then_def io_bind_def split: list.splits)
  then obtain win1 where "flush_entry e win w = (Inr win1, w1)" by blast
  with Cons.IH [OF w1] Cons.prems(2) show ?case by (simp add: io_bind_def)
qed

text \<open>The broker's answers a replay needs: a CONNACK, and anything at all to a re-SUBSCRIBE.\<close>

definition broker_answers ::
  "('x, 'c) rmqtt \<Rightarrow> protocol_version \<Rightarrow> subscriptions \<Rightarrow> 'x next_result list \<Rightarrow> bool" where
  "broker_answers C v subs rs \<longleftrightarrow>
     (case rs of
        NextPacket ack # rs' \<Rightarrow> is_connack ack \<and>
          (case resubscribe_packet C v subs of
             None \<Rightarrow> True
           | Some p \<Rightarrow> (case rs' of NextPacket q # rs'' \<Rightarrow> True | _ \<Rightarrow> False))
      | _ \<Rightarrow> False)"

lemma await_succeeds:
  assumes "broker_next w = NextPacket ack # rs" and "is_connack ack"
  shows "await_connack ka w = (Inr (connack_keep_alive ack ka), w\<lparr>broker_next := rs\<rparr>)"
  using assms
  by (cases ack rule: is_connack.cases)
    (auto simp: await_connack_def io_bind_def broker_read_def split: option.splits)

lemma resubscribe_succeeds:
  assumes "all_ok w" and "resubscribe_packet C v subs = None \<or> (\<exists>q rs. broker_next w = NextPacket q # rs)"
  shows "\<exists>w'. resubscribe C v subs w = (Inr (), w') \<and> all_ok w'"
proof (cases "resubscribe_packet C v subs")
  case None
  with assms show ?thesis by (simp add: resubscribe_def)
next
  case (Some p)
  obtain w1 where w1: "broker_send p w = (Inr (), w1)" "all_ok w1" "broker_next w1 = broker_next w"
    using safe_step [OF safe_writes(2) emits_writes(2) assms(1)] by blast
  with Some assms(2) show ?thesis
    by (auto simp: resubscribe_def io_then_def io_bind_def broker_read_def all_ok_def)
qed

lemma establish_succeeds:
  assumes "decode_consumes C" and "window_inv (rs_windows s)" and "buffer_inv (rs_buffer s)"
    and "all_ok w" and "force_session_resumption raw = Inr raw'"
    and "broker_answers C v subs (broker_next w)"
  shows "\<exists>s' w'. establish_broker C v raw subs s w = (Inr s', w')"
proof -
  obtain ack rs where nxt: "broker_next w = NextPacket ack # rs" and ack: "is_connack ack"
    and rs: "resubscribe_packet C v subs = None \<or> (\<exists>q rs'. rs = NextPacket q # rs')"
    using assms(6) by (auto simp: broker_answers_def split: list.splits next_result.splits option.splits)
  obtain w1 where w1: "broker_write_all raw' w = (Inr (), w1)" "all_ok w1" "broker_next w1 = broker_next w"
    using safe_step [OF safe_writes(4) emits_writes(4) assms(4)] by blast
  obtain w2 where w2: "broker_flush w1 = (Inr (), w2)" "all_ok w2" "broker_next w2 = broker_next w1"
    using safe_step [OF safe_writes(6) emits_writes(6) w1(2)] by blast
  define w3 where "w3 = w2\<lparr>broker_next := rs\<rparr>"
  have w3: "await_connack ka w2 = (Inr (connack_keep_alive ack ka), w3)" "all_ok w3" for ka
    using await_succeeds [of w2 ack rs] nxt ack w1 w2 by (simp_all add: w3_def all_ok_def)
  obtain w4 where w4: "resubscribe C v subs w3 = (Inr (), w4)" "all_ok w4"
    using resubscribe_succeeds [OF w3(2), of C v subs] rs by (auto simp: w3_def)
  obtain w5 where w5: "deliver_leftover C (Suc (length (rs_leftover s))) (codec_for C v) (rs_leftover s) w4
      = (Inr (), w5)" "all_ok w5"
    using safe_leftover [OF assms(1) lessI] w4(2) unfolding safe_def by blast
  obtain bs cs where bs: "broker_retransmits (rs_windows s) = Inr bs"
    and cs: "client_retransmits (rs_windows s) = Inr cs"
    using assms(2) by (simp add: broker_retransmits_eq client_retransmits_eq)
  have sb: "safe (io_for broker_write_all bs)" and sc: "safe (io_for client_write_all cs)"
    by (auto intro: safe_for safe_writes)
  obtain w6 where w6: "io_for broker_write_all bs w5 = (Inr (), w6)" "all_ok w6"
    using sb w5(2) unfolding safe_def by blast
  obtain w7 where w7: "io_for client_write_all cs w6 = (Inr (), w7)" "all_ok w7"
    using sc w6(2) unfolding safe_def by blast
  obtain win w8 where w8: "flush_buffer (ob_entries (rs_buffer s)) (rs_windows s) w7 = (Inr win, w8)"
    "all_ok w8"
    using flush_buffer_succeeds [OF w7(2) buffer_raw_nonempty [OF assms(3)]] by blast
  obtain w9 where w9: "broker_flush w8 = (Inr (), w9)" "all_ok w9"
    using safe_writes(6) w8(2) unfolding safe_def by blast
  obtain w10 where w10: "client_flush w9 = (Inr (), w10)"
    using safe_writes(5) w9(2) unfolding safe_def by blast
  show ?thesis
    using assms(5) w1 w2 w3 w4 w5 bs w6 cs w7 w8 w9 w10
    by (simp add: establish_broker_def io_bind_def io_then_def del: deliver_leftover.simps)
qed

section \<open>The windows after a replay\<close>

lemma flush_window_inv: "window_inv w \<Longrightarrow> window_inv (flush_window e w)"
  by (auto simp: flush_window_def intro!: inv_intros)

lemma flush_windows_inv: "window_inv w \<Longrightarrow> window_inv (fold flush_window es w)"
  by (induction es arbitrary: w) (auto simp: flush_window_inv)

lemma c2b_insert_keys:
  assumes "window_inv w"
  shows "fst ` set (c2b (insert_c2b_raw w i st raw)) = insert i (fst ` set (c2b w))"
proof -
  have "distinct (map fst (c2b w))" using assms by (simp add: window_inv_def table_ok_def)
  from arg_cong [OF vec_keys(1) [OF this, of i "(st, raw)"], of set]
  have "fst ` set (c2b (insert_c2b_raw w i st raw)) =
      (if i \<in> fst ` set (c2b w) then fst ` set (c2b w) else insert i (fst ` set (c2b w)))"
    by (simp add: insert_c2b_raw_def vec_contains_iff)
  then show ?thesis by (simp add: insert_absorb split: if_splits)
qed

definition flushed_ids :: "buffered_publish list \<Rightarrow> u16 set" where
  "flushed_ids es = bp_packet_id ` {e \<in> set es. type_nibble (bp_raw e) \<in> {Some 3, Some 6}}"

lemma flush_windows_keys:
  "window_inv w \<Longrightarrow>
   fst ` set (c2b (fold flush_window es w)) = fst ` set (c2b w) \<union> flushed_ids es"
proof (induction es arbitrary: w)
  case Nil
  then show ?case by (simp add: flushed_ids_def)
next
  case (Cons e es)
  have "fst ` set (c2b (flush_window e w)) = fst ` set (c2b w) \<union> flushed_ids [e]"
    using Cons.prems by (auto simp: flush_window_def flushed_ids_def c2b_insert_keys)
  moreover have "flushed_ids (e # es) = flushed_ids [e] \<union> flushed_ids es"
    by (auto simp: flushed_ids_def)
  ultimately show ?case
    using Cons.IH [OF flush_window_inv [OF Cons.prems]] by (simp add: Un_assoc)
qed

section \<open>Properties\<close>

text \<open>
  C7. A reconnect replays the session. When the broker answers the CONNECT and no write
  fails, the replay succeeds; the broker then has received, in this order and nothing else,
  the client's CONNECT with the clean bit cleared, the re-SUBSCRIBE if there are
  subscriptions, the retransmission of every window entry and the outage buffer in arrival
  order, and the client has received the complete packets the dead connection had left and
  the retransmissions owed to it. The buffer and the leftover are empty afterwards.
\<close>

theorem reconnect_replays_session:
  assumes "decode_consumes C" and "window_inv (rs_windows s)" and "buffer_inv (rs_buffer s)"
    and "all_ok w" and "broker_answers C v subs (broker_next w)" and "layout_ok l"
  shows "\<exists>s' w' l' bs cs. establish_broker C v (layout_bytes l) subs s w = (Inr s', w') \<and>
    clean_cleared l l' \<and>
    broker_retransmits (rs_windows s) = Inr bs \<and> client_retransmits (rs_windows s) = Inr cs \<and>
    broker_log w' = broker_log w @ [WriteRaw (layout_bytes l')] @
      (case resubscribe_packet C v subs of None \<Rightarrow> [] | Some p \<Rightarrow> [SendPacket p]) @
      map WriteRaw bs @ map (WriteRaw \<circ> bp_raw) (ob_entries (rs_buffer s)) \<and>
    client_log w' = client_log w @
      map SendPacket (leftover_packets C v (rs_leftover s)) @ map WriteRaw cs \<and>
    rs_buffer s' = outage_buffer_default \<and> rs_leftover s' = []"
proof -
  let ?l' = "l\<lparr>cl_flags := cl_flags l AND NOT 2\<rparr>"
  have force: "force_session_resumption (layout_bytes l) = Inr (layout_bytes ?l')"
    using assms(6) by (rule force_layout)
  obtain s' w' where run: "establish_broker C v (layout_bytes l) subs s w = (Inr s', w')"
    using establish_succeeds [OF assms(1-4) force assms(5)] by blast
  from establish_Inr [OF run assms(2)] show ?thesis
    unfolding force using run clean_cleared_and [of l] by auto
qed

text \<open>
  What is owed moves into the window. After a successful replay the client-to-broker
  window is well-formed and its identifiers are those it had together with those of the
  flushed PUBLISH and PUBREL packets: the broker's acknowledgements chain to the client as if
  the packets had been forwarded directly.
\<close>

theorem replay_moves_buffer_to_window:
  assumes "window_inv (rs_windows s)" and "establish_broker C v raw subs s w = (Inr s', w')"
  shows "window_inv (rs_windows s') \<and>
    fst ` set (c2b (rs_windows s')) =
      fst ` set (c2b (rs_windows s)) \<union> flushed_ids (ob_entries (rs_buffer s)) \<and>
    b2c (rs_windows s') = b2c (rs_windows s)"
proof -
  have "b2c (fold flush_window es w) = b2c w" for es w
    by (induction es arbitrary: w) (simp_all add: flush_window_def insert_c2b_raw_def)
  moreover from establish_Inr [OF assms(2,1)]
  have "rs_windows s' = fold flush_window (ob_entries (rs_buffer s)) (rs_windows s)" by auto
  ultimately show ?thesis
    using assms(1) by (simp add: flush_windows_inv flush_windows_keys)
qed

definition sample_replay :: replay_state where
  "sample_replay = \<lparr>rs_windows = sample_windows,
     rs_buffer = \<lparr>ob_entries = [\<lparr>bp_packet_id = 9, bp_raw = [48, 0], bp_qos = 1\<rparr>], ob_bytes = 2\<rparr>,
     rs_leftover = [64, 0], rs_keep_alive = 30\<rparr>"

definition sample_layout :: connect_layout where
  "sample_layout = \<lparr>cl_header = 16, cl_remaining = [12], cl_name_hi = 0, cl_name_lo = 4,
     cl_name = [77, 81, 84, 84], cl_level = 4, cl_flags = 2, cl_rest = [1, 44, 0, 0]\<rparr>"

definition sample_reconnect :: "unit world" where
  "sample_reconnect = sample_world\<lparr>broker_next := [NextPacket (V3 (V3ConnectAck ()))]\<rparr>"

lemma sample_decode_consumes: "decode_consumes sample_rmqtt"
  by (auto simp: decode_consumes_def sample_rmqtt_def sample_decode_def split: if_splits)

lemma sample_replay_ok:
  "window_inv (rs_windows sample_replay)" "buffer_inv (rs_buffer sample_replay)"
  "all_ok sample_reconnect" "broker_answers sample_rmqtt MQTT3 [] (broker_next sample_reconnect)"
  "layout_ok sample_layout"
  by (simp_all add: sample_replay_def sample_windows_inv buffer_inv_def OUTAGE_BUFFER_MAX_BYTES_def
      all_ok_def sample_reconnect_def sample_world_def broker_answers_def resubscribe_packet_def
      layout_ok_def sample_layout_def is_varint_def bit_iff_odd)

theorem reconnect_replays_session_witness:
  "\<exists>s' w'. establish_broker sample_rmqtt MQTT3 (layout_bytes sample_layout) [] sample_replay
      sample_reconnect = (Inr s', w') \<and>
    client_log w' = [SendPacket (V3 (V3PublishAck 7)), WriteRaw [58, 0]] \<and>
    length (broker_log w') = 4 \<and> last (broker_log w') = WriteRaw [48, 0]"
proof -
  have left: "leftover_packets sample_rmqtt MQTT3 [64, 0] = [V3 (V3PublishAck 7)]"
    by (simp add: leftover_packets_def sample_rmqtt_def sample_decode_def codec_for_def)
  have re: "broker_retransmits sample_windows = Inr [[98, 2, 0, 5], [58, 1, 9]]"
    "client_retransmits sample_windows = Inr [[58, 0]]"
    by (simp_all add: broker_retransmits_def client_retransmits_def sample_windows_def
        with_dup_def DUP_FLAG_def List.map_filter_simps)
  from reconnect_replays_session [OF sample_decode_consumes sample_replay_ok] show ?thesis
    by (auto simp: sample_replay_def left re resubscribe_packet_def sample_reconnect_def
        sample_world_def)
qed

theorem replay_moves_buffer_to_window_witness:
  "\<exists>s' w'. establish_broker sample_rmqtt MQTT3 (layout_bytes sample_layout) [] sample_replay
      sample_reconnect = (Inr s', w') \<and>
    fst ` set (c2b (rs_windows s')) = {5, 7, 9}"
proof -
  obtain s' w' where run: "establish_broker sample_rmqtt MQTT3 (layout_bytes sample_layout) []
      sample_replay sample_reconnect = (Inr s', w')"
    using establish_succeeds [OF sample_decode_consumes sample_replay_ok(1-3) force_layout
        [OF sample_replay_ok(5)] sample_replay_ok(4)] by blast
  with replay_moves_buffer_to_window [OF sample_replay_ok(1) run] show ?thesis
    by (auto simp: sample_replay_def sample_windows_def flushed_ids_def)
qed

section \<open>Observations\<close>

text \<open>
  The packet read after the re-SUBSCRIBE is consumed whatever it is: a PUBLISH the broker
  redelivers before its SUBACK reaches neither the client nor the windows.
\<close>

lemma resubscribe_swallows_answer:
  assumes "all_ok w" and "resubscribe_packet C v subs = Some p"
    and "broker_next w = NextPacket q # rs"
  shows "\<exists>w'. resubscribe C v subs w = (Inr (), w') \<and> client_log w' = client_log w \<and>
    broker_next w' = rs"
proof -
  obtain w1 where w1: "broker_send p w = (Inr (), w1)" "all_ok w1" "broker_next w1 = broker_next w"
    using safe_step [OF safe_writes(2) emits_writes(2) assms(1)] by blast
  with assms emitsD(1) [OF emits_writes(2) w1(1)] show ?thesis
    by (simp add: resubscribe_def io_then_def io_bind_def broker_read_def)
qed

text \<open>
  Acknowledgements among the leftover bytes are delivered to the client but not tracked: the
  identifiers they acknowledge stay in the window, and their packets have just been resent.
\<close>

lemma leftover_acks_not_tracked:
  assumes "window_inv (rs_windows s)" and "establish_broker C v raw subs s w = (Inr s', w')"
    and "V3 (V3PublishAck i) \<in> set (leftover_packets C v (rs_leftover s))"
    and "(i, C2BPublishSent, r) \<in> set (c2b (rs_windows s))"
  shows "SendPacket (V3 (V3PublishAck i)) \<in> set (client_log w') \<and>
    WriteRaw (set_dup r) \<in> set (broker_log w') \<and> i \<in> fst ` set (c2b (rs_windows s'))"
proof -
  from establish_Inr [OF assms(2,1)] obtain raw' bs cs where
    bs: "broker_retransmits (rs_windows s) = Inr bs"
    and win: "rs_windows s' = fold flush_window (ob_entries (rs_buffer s)) (rs_windows s)"
    and blog: "broker_log w' = broker_log w @ [WriteRaw raw'] @
      (case resubscribe_packet C v subs of None \<Rightarrow> [] | Some p \<Rightarrow> [SendPacket p]) @
      map WriteRaw bs @ map (WriteRaw \<circ> bp_raw) (ob_entries (rs_buffer s))"
    and clog: "client_log w' = client_log w @
      map SendPacket (leftover_packets C v (rs_leftover s)) @ map WriteRaw cs"
    by force
  have "set_dup r \<in> set bs"
    using bs assms(1) rev_image_eqI [OF assms(4), of "set_dup r"
        "\<lambda>(_, st, raw). if st = C2BPublishSent then set_dup raw else raw"]
    by (simp add: broker_retransmits_eq) (metis list.set_map)
  then have "WriteRaw (set_dup r) \<in> set (broker_log w')" by (simp add: blog)
  moreover have "i \<in> fst ` set (c2b (rs_windows s'))"
    using rev_image_eqI [OF assms(4), of i fst] by (simp add: win flush_windows_keys [OF assms(1)])
  ultimately show ?thesis using assms(3) by (simp add: clog)
qed

text \<open>
  Nor are the publishes among them: they reach the client, but the window toward the client
  stays as it was, so a publish the client does not acknowledge is not resent by the proxy.
\<close>

lemma leftover_publishes_not_tracked:
  assumes "window_inv (rs_windows s)" and "establish_broker C v raw subs s w = (Inr s', w')"
    and "p \<in> set (leftover_packets C v (rs_leftover s))"
  shows "SendPacket p \<in> set (client_log w') \<and> b2c (rs_windows s') = b2c (rs_windows s)"
proof -
  have "b2c (fold flush_window es win) = b2c win" for es win
    by (induction es arbitrary: win) (simp_all add: flush_window_def insert_c2b_raw_def)
  with establish_Inr [OF assms(2,1)] assms(3) show ?thesis by auto
qed

end
