(* ===== verification/Event_System.thy ===== *)
theory Event_System
  imports Main
begin

text \<open>
  Labelled step relations and their runs, shared by the components that are state machines:
  the forward loop of a session, the draining of the server, the init process. The locale
  states the contract of an invariant once; each machine interprets it with its own steps.
\<close>

inductive run :: "('s \<Rightarrow> 'e \<Rightarrow> 's \<Rightarrow> bool) \<Rightarrow> 's \<Rightarrow> 'e list \<Rightarrow> 's \<Rightarrow> bool" for step where
  run_nil: "run step s [] s"
| run_snoc: "run step s es s' \<Longrightarrow> step s' e s'' \<Longrightarrow> run step s (es @ [e]) s''"

inductive_cases run_nilE: "run step s [] s'"
inductive_cases run_snocE: "run step s (es @ [e]) s'"

lemma run_cons: "run step s1 es s2 \<Longrightarrow> step s e s1 \<Longrightarrow> run step s (e # es) s2"
proof (induction rule: run.induct)
  case (run_nil s1)
  then show ?case using run.run_snoc [OF run.run_nil] by fastforce
next
  case (run_snoc s1 es s' e' s'')
  then show ?case using run.run_snoc by fastforce
qed

lemma run_append: "run step s es s' \<Longrightarrow> run step s' fs s'' \<Longrightarrow> run step s (es @ fs) s''"
proof (induction fs arbitrary: s'' rule: rev_induct)
  case Nil
  then show ?case by (auto elim: run_nilE)
next
  case (snoc f fs)
  from snoc.prems(2) obtain t where "run step s' fs t" "step t f s''"
    by (auto elim: run_snocE)
  with snoc.IH [OF snoc.prems(1)] show ?case
    by (metis append_assoc run.run_snoc)
qed

lemma run_consE:
  assumes "run step s (e # es) s'"
  obtains s1 where "step s e s1" "run step s1 es s'"
  using assms
proof (induction es arbitrary: s' thesis rule: rev_induct)
  case Nil
  then have "run step s ([] @ [e]) s'" by simp
  then obtain s2 where "run step s [] s2" "step s2 e s'" by (rule run_snocE)
  with Nil.prems(1) show ?case by (auto elim!: run_nilE intro: run_nil)
next
  case (snoc f es)
  then have "run step s ((e # es) @ [f]) s'" by simp
  then obtain s2 where "run step s (e # es) s2" "step s2 f s'" by (rule run_snocE)
  with snoc.IH snoc.prems(1) show ?case by (blast intro: run_snoc)
qed

locale invariant_system =
  fixes step :: "'s \<Rightarrow> 'e \<Rightarrow> 's \<Rightarrow> bool"
    and allowed :: "'e \<Rightarrow> bool"
    and inv :: "'s \<Rightarrow> bool"
  assumes inv_step: "inv s \<Longrightarrow> allowed e \<Longrightarrow> step s e s' \<Longrightarrow> inv s'"
begin

lemma inv_run:
  assumes "run step s es s'" and "inv s" and "list_all allowed es"
  shows "inv s'"
  using assms
proof (induction rule: run.induct)
  case (run_nil s)
  then show ?case by simp
next
  case (run_snoc s es s' e s'')
  then show ?case by (auto intro: inv_step)
qed

text \<open>
  A ghost that follows the events and stays related to the state, step by step, is related to
  it after any run.
\<close>

lemma ghost_run:
  assumes "run step s es s'" and "inv s" and "list_all allowed es" and "R x s"
    and ghost: "\<And>x s e s'. R x s \<Longrightarrow> inv s \<Longrightarrow> allowed e \<Longrightarrow> step s e s' \<Longrightarrow> R (upd e x) s'"
  shows "R (fold upd es x) s'"
  using assms(1-4)
proof (induction rule: run.induct)
  case (run_nil s)
  then show ?case by simp
next
  case (run_snoc s es s' e s'')
  then have "inv s'" and "R (fold upd es x) s'" by (auto intro: inv_run)
  with run_snoc ghost show ?case by simp
qed

end

end
