(* ===== verification/Session.thy ===== *)
theory Session
  imports Replay Event_System
begin

text \<open>
  The life of a session as a state machine: the iterations of the forward loop
  (\<open>session/forward.rs\<close>) as labelled steps on the instant at which an iteration starts, the
  session and the world. The invariant holds in every reachable state, no iteration panics,
  and the abstract ledger of the whole conversation, kept across outages, reconnects and
  freezes, is always covered by what the session would resend.
\<close>

section \<open>The step relation\<close>

type_synonym ('x, 'c) config = "instant \<times> 'c session \<times> 'x world"

inductive session_step ::
  "('x, 'c) rmqtt \<Rightarrow> ('x, 'c) config \<Rightarrow> instant \<times> ('x, 'c) event \<Rightarrow> ('x, 'c) config \<Rightarrow> bool"
  for C where
  step_iter: "enabled t0 now ev s \<Longrightarrow> forward_step C now ev s w = (Inr (Some s'), w') \<Longrightarrow>
    now \<le> t1 \<Longrightarrow> session_step C (t0, s, w) (now, ev) (t1, s', w')"

inductive_simps session_step_iff: "session_step C (t0, s, w) (now, ev) (t1, s', w')"
inductive_cases session_stepE: "session_step C c e c'"

section \<open>The invariant\<close>

definition retry_delay :: "nat \<Rightarrow> duration" where
  "retry_delay n = min (BROKER_RETRY_INITIAL * 2 ^ n) BROKER_RETRY_MAX"

definition session_inv :: "'c session \<Rightarrow> bool" where
  "session_inv s \<longleftrightarrow> window_inv (s_windows s) \<and> buffer_inv (s_buffer s) \<and>
     (\<exists>n. s_backoff s = retry_delay n) \<and>
     (case s_step s of Connect \<Rightarrow> True | Backoff d \<Rightarrow> \<exists>n. d = retry_delay n) \<and>
     (s_broker s \<noteq> None \<longrightarrow>
        s_buffer s = outage_buffer_default \<and> s_leftover s = [] \<and>
        s_backoff s = BROKER_RETRY_INITIAL \<and> s_step s = Connect)"

text \<open>Packets on either connection come out of the codec.\<close>

fun event_packet :: "('x, 'c) event \<Rightarrow> 'x traffic option" where
  "event_packet (EvClient c (NextPacket p)) = Some (FromClient p)"
| "event_packet (EvBroker b (NextPacket p)) = Some (FromBroker p)"
| "event_packet ev = None"

definition event_ok :: "('x, 'c) rmqtt \<Rightarrow> instant \<times> ('x, 'c) event \<Rightarrow> bool" where
  "event_ok C e \<longleftrightarrow>
     (case event_packet (snd e) of
        None \<Rightarrow> True
      | Some p \<Rightarrow> packet_ok (traffic_packet p) \<and> encodable C (traffic_packet p))"

section \<open>Lemmas\<close>

lemma retry_delay_0: "retry_delay 0 = BROKER_RETRY_INITIAL"
  by (simp add: retry_delay_def BROKER_RETRY_INITIAL_def BROKER_RETRY_MAX_def)

lemma retry_delay_Suc: "min (retry_delay n * 2) BROKER_RETRY_MAX = retry_delay (Suc n)"
  by (auto simp: retry_delay_def min_def)

lemma retry_delay_pos: "0 < retry_delay n"
  by (simp add: retry_delay_def BROKER_RETRY_INITIAL_def BROKER_RETRY_MAX_def)

text \<open>Each branch of an iteration, as an equation for its successful outcome.\<close>

lemma freeze_branch_Inr:
  assumes "freeze_branch coord s w = (Inr (Some s'), w')"
  shows "\<exists>c b. s' = s\<lparr>s_client := c, s_broker := b\<rparr> \<and> (b = None \<longleftrightarrow> s_broker s = None) \<and> w' = w"
  using assms
  by (auto simp: freeze_branch_def handle_freeze_def restore_parts_def end_session_def Let_def
      split: freeze_outcome.splits coordinator.splits)

lemma local_pong_eq: "local_pong p =
  (case local_answer p of SendPacket q # _ \<Rightarrow> client_send q | _ \<Rightarrow> io_return ())"
  by (auto simp: local_pong_def local_answer_def split: packet_splits)

lemma emits_local_pong: "emits (local_pong p) (local_answer p) []"
  by (auto simp: local_pong_def local_answer_def emits_writes emits_return split: packet_splits)

lemma safe_local_pong: "safe (local_pong p)"
  by (auto simp: local_pong_def safe_writes safe_return split: packet_splits)

lemma orderly_local_pong [simp]: "orderly_io (local_pong p)"
  by (auto simp: local_pong_def split: packet_splits)

lemma broker_send_cases:
  obtains (sent) w' where "broker_send p w = (Inr (), w')" "script_head (broker_ok w)"
      "broker_log w' = broker_log w @ [SendPacket p]" "client_log w' = client_log w"
    | (failed) e w' where "broker_send p w = (Inl e, w')" "\<not> script_head (broker_ok w)"
      "broker_log w' = broker_log w" "client_log w' = client_log w"
  by (cases "script_head (broker_ok w)") (auto simp: broker_send_def broker_do_def Let_def)

text \<open>
  The new state after an iteration that services a client packet while connected; the broker
  connection is dropped when the write to it fails.
\<close>

definition relayed ::
  "('x, 'c) rmqtt \<Rightarrow> instant \<Rightarrow> 'c framed \<Rightarrow> 'x mqtt_packet \<Rightarrow> inflight_windows \<Rightarrow> 'c session \<Rightarrow>
   'c session" where
  "relayed C now c p win s = s\<lparr>s_client := c, s_last_activity := now, s_windows := win,
     s_subscriptions := sub_track C p (s_subscriptions s)\<rparr>"

lemma relayed_simps [simp]:
  "s_broker (relayed C now c p win s) = s_broker s"
  "s_windows (relayed C now c p win s) = win"
  "s_buffer (relayed C now c p win s) = s_buffer s"
  "s_leftover (relayed C now c p win s) = s_leftover s"
  "s_backoff (relayed C now c p win s) = s_backoff s"
  "s_step (relayed C now c p win s) = s_step s"
  "s_last_activity (relayed C now c p win s) = now"
  "s_hs (relayed C now c p win s) = s_hs s"
  by (simp_all add: relayed_def)

lemma connected_client_Inr:
  assumes "connected_client C now c (NextPacket p) s w = (Inr (Some s'), w')"
  shows "\<exists>win. track_c2b C (s_windows s) p = Inr win \<and>
    client_log w' = client_log w @ local_answer p \<and>
    (s' = relayed C now c p win s \<and> broker_log w' = broker_log w @ [SendPacket p] \<or>
     s' = (relayed C now c p win s)\<lparr>s_broker := None\<rparr> \<and> broker_log w' = broker_log w)"
proof -
  from assms obtain w1 win where pong: "local_pong p w = (Inr (), w1)"
    and win: "track_c2b C (s_windows s) p = Inr win"
    and fwd: "forward_to_broker p (relayed C now c p win s) w1 = (Inr (Some s'), w')"
    by (auto simp: connected_client_def io_then_eq_Inr io_bind_eq_Inr relayed_def)
  note log = emitsD [OF emits_local_pong pong]
  show ?thesis
    by (cases rule: broker_send_cases [of p w1])
      (use fwd log win in \<open>auto simp: forward_to_broker_def\<close>)
qed

lemma connected_broker_Inr:
  assumes "connected_broker C b r s w = (Inr (Some s'), w')"
  shows "broker_log w' = broker_log w \<and>
    (s' = lose_broker b s \<and> w' = w \<and>
       (\<forall>p. r = NextPacket p \<longrightarrow> (\<exists>d. p = V5 (V5Disconnect d) \<and> is_retryable_disconnect (dis_reason_code d)))
     \<or> (\<exists>p win. r = NextPacket p \<and> s' = s\<lparr>s_broker := Some b, s_windows := win\<rparr> \<and>
         (if is_pong p then win = s_windows s \<and> w' = w
          else track_b2c C (s_windows s) p = Inr win \<and> client_log w' = client_log w @ [SendPacket p])))"
  using assms emitsD [OF emits_writes(1)]
  by (auto simp: connected_broker_def end_session_def io_then_eq_Inr io_bind_eq_Inr
      split: next_result.splits packet_splits if_splits) (auto simp: is_pong_def)

definition serviced ::
  "instant \<Rightarrow> 'c framed \<Rightarrow> outage_state \<Rightarrow> 'c session \<Rightarrow> 'c session" where
  "serviced now c st s = s\<lparr>s_client := c, s_last_activity := now, s_buffer := os_buffer st,
     s_subscriptions := os_subscriptions st, s_windows := os_windows st\<rparr>"

definition outage_view :: "'c session \<Rightarrow> outage_state" where
  "outage_view s = \<lparr>os_buffer = s_buffer s, os_subscriptions = s_subscriptions s,
     os_windows = s_windows s\<rparr>"

lemma serviced_simps [simp]:
  "s_broker (serviced now c st s) = s_broker s"
  "s_windows (serviced now c st s) = os_windows st"
  "s_buffer (serviced now c st s) = os_buffer st"
  "s_leftover (serviced now c st s) = s_leftover s"
  "s_backoff (serviced now c st s) = s_backoff s"
  "s_step (serviced now c st s) = s_step s"
  "s_last_activity (serviced now c st s) = now"
  "s_hs (serviced now c st s) = s_hs s"
  by (simp_all add: serviced_def)

lemma outage_view_simps [simp]:
  "os_buffer (outage_view s) = s_buffer s" "os_windows (outage_view s) = s_windows s"
  "os_subscriptions (outage_view s) = s_subscriptions s"
  by (simp_all add: outage_view_def)

definition replay_view :: "'c session \<Rightarrow> replay_state" where
  "replay_view s = \<lparr>rs_windows = s_windows s, rs_buffer = s_buffer s,
     rs_leftover = s_leftover s, rs_keep_alive = hs_keep_alive (s_hs s)\<rparr>"

lemma replay_view_simps [simp]:
  "rs_windows (replay_view s) = s_windows s" "rs_buffer (replay_view s) = s_buffer s"
  "rs_leftover (replay_view s) = s_leftover s" "rs_keep_alive (replay_view s) = hs_keep_alive (s_hs s)"
  by (simp_all add: replay_view_def)

definition reconnected :: "'c framed \<Rightarrow> u16 \<Rightarrow> 'c session \<Rightarrow> 'c session" where
  "reconnected b ka s = s\<lparr>s_broker := Some b,
     s_windows := fold flush_window (ob_entries (s_buffer s)) (s_windows s),
     s_buffer := outage_buffer_default, s_leftover := [],
     s_hs := (s_hs s)\<lparr>hs_keep_alive := ka\<rparr>,
     s_backoff := BROKER_RETRY_INITIAL, s_step := Connect\<rparr>"

lemma outage_connected_Inr:
  assumes "outage_connected C b s w = (Inr (Some s'), w')" and "window_inv (s_windows s)"
  shows "\<exists>ka. s' = reconnected b ka s"
proof -
  from assms(1) obtain st where
    run: "establish_broker C (hs_version (s_hs s)) (hs_connect_raw (s_hs s)) (s_subscriptions s)
      (replay_view s) w = (Inr st, w')"
    and s': "s' = s\<lparr>s_broker := Some b, s_windows := rs_windows st, s_buffer := rs_buffer st,
       s_leftover := rs_leftover st, s_hs := (s_hs s)\<lparr>hs_keep_alive := rs_keep_alive st\<rparr>,
       s_backoff := BROKER_RETRY_INITIAL, s_step := Connect\<rparr>"
    by (auto simp: outage_connected_def io_bind_eq_Inr replay_view_def)
  from establish_Inr [OF run] assms(2) obtain ka where
    "st = \<lparr>rs_windows = fold flush_window (ob_entries (s_buffer s)) (s_windows s),
       rs_buffer = outage_buffer_default, rs_leftover = [], rs_keep_alive = ka\<rparr>"
    by force
  with s' show ?thesis by (auto simp: reconnected_def)
qed

text \<open>The ways an enabled iteration goes on.\<close>

lemma forward_cases:
  assumes "forward_step C now ev s w = (Inr (Some s'), w')" and "enabled t0 now ev s"
    and "window_inv (s_windows s)"
  obtains
    (relay) c p win where "ev = EvClient c (NextPacket p)" "s_broker s \<noteq> None"
      "track_c2b C (s_windows s) p = Inr win" "client_log w' = client_log w @ local_answer p"
      "s' = relayed C now c p win s" "broker_log w' = broker_log w @ [SendPacket p]"
  | (relay_lost) c p win where "ev = EvClient c (NextPacket p)" "s_broker s \<noteq> None"
      "track_c2b C (s_windows s) p = Inr win" "client_log w' = client_log w @ local_answer p"
      "s' = (relayed C now c p win s)\<lparr>s_broker := None\<rparr>" "broker_log w' = broker_log w"
  | (deliver) b p win where "ev = EvBroker b (NextPacket p)" "s_broker s \<noteq> None" "\<not> is_pong p"
      "track_b2c C (s_windows s) p = Inr win" "client_log w' = client_log w @ [SendPacket p]"
      "s' = s\<lparr>s_broker := Some b, s_windows := win\<rparr>" "broker_log w' = broker_log w"
  | (pong) b p where "ev = EvBroker b (NextPacket p)" "s_broker s \<noteq> None" "is_pong p"
      "s' = s\<lparr>s_broker := Some b\<rparr>" "w' = w"
  | (lost) b r where "ev = EvBroker b r" "s_broker s \<noteq> None" "s' = lose_broker b s" "w' = w"
      "\<forall>p. r = NextPacket p \<longrightarrow> (\<exists>d. p = V5 (V5Disconnect d) \<and> is_retryable_disconnect (dis_reason_code d))"
  | (thaw) coord c b where "ev = EvFreeze coord" "s' = s\<lparr>s_client := c, s_broker := b\<rparr>"
      "b = None \<longleftrightarrow> s_broker s = None" "w' = w"
  | (service) c p st where "ev = EvClient c (NextPacket p)" "s_broker s = None"
      "service_outage_packet C p (outage_view s) w = (Inr st, w')" "s' = serviced now c st s"
  | (reconnect) b ka where "ev = EvWait (Some b)" "s_broker s = None" "s' = reconnected b ka s"
      "outage_connected C b s w = (Inr (Some s'), w')"
  | (retry) "ev = EvWait None" "s_broker s = None" "s' = outage_retry s" "w' = w"
proof (cases "s_broker s = None")
  case True
  note st = assms(1) [unfolded forward_step_def]
  show ?thesis
  proof (cases ev)
    case (EvClient c r)
    with st True show ?thesis
      by (cases r) (auto simp: outage_phase_def outage_client_def end_session_def io_bind_eq_Inr
          serviced_def outage_view_def intro: that(7))
  next
    case (EvWait b)
    show ?thesis
    proof (cases b)
      case None
      with st True EvWait show ?thesis by (auto simp: outage_phase_def intro: that(9))
    next
      case (Some b')
      with st True EvWait have run: "outage_connected C b' s w = (Inr (Some s'), w')"
        by (simp add: outage_phase_def)
      from outage_connected_Inr [OF this assms(3)] obtain ka where "s' = reconnected b' ka s" ..
      with Some EvWait True run show ?thesis by (intro that(8)) auto
    qed
  next
    case (EvFreeze coord)
    with st True show ?thesis
      by (auto simp: outage_phase_def dest!: freeze_branch_Inr intro: that(6))
  qed (use st True assms(2) in \<open>auto simp: outage_phase_def end_session_def deadline_branch_def
      enabled_def\<close>)
next
  case False
  note st = assms(1) [unfolded forward_step_def]
  show ?thesis
  proof (cases ev)
    case (EvClient c r)
    with st False show ?thesis
      by (cases r) (auto simp: connected_phase_def connected_client_def [of _ _ _ NextNone]
          connected_client_def [of _ _ _ "NextErr e" for e] end_session_def
          dest!: connected_client_Inr intro: that(1,2))
  next
    case (EvBroker b r)
    with st False have "connected_broker C b r s w = (Inr (Some s'), w')"
      by (simp add: connected_phase_def)
    from connected_broker_Inr [OF this] EvBroker False show ?thesis
      by (auto split: if_splits intro: that(3,4,5))
  next
    case (EvFreeze coord)
    with st False show ?thesis
      by (auto simp: connected_phase_def dest!: freeze_branch_Inr intro: that(6))
  qed (use st False assms(2) in \<open>auto simp: connected_phase_def end_session_def deadline_branch_def
      enabled_def\<close>)
qed

section \<open>The invariant is kept\<close>

lemma initial_delay [simp]: "\<exists>n. BROKER_RETRY_INITIAL = retry_delay n"
  using retry_delay_0 by metis

declare buffer_inv_default [simp]

lemma session_inv_windows: "session_inv s \<Longrightarrow> window_inv win \<Longrightarrow> session_inv (s\<lparr>s_windows := win\<rparr>)"
  by (simp add: session_inv_def)

lemma session_inv_outage_view: "session_inv s \<Longrightarrow> outage_inv (outage_view s)"
  by (simp add: session_inv_def outage_inv_def)

lemma session_inv_retry:
  assumes "session_inv s" and "s_broker s = None"
  shows "session_inv (outage_retry s)"
proof -
  obtain n where "s_backoff s = retry_delay n" using assms(1) by (auto simp: session_inv_def)
  with assms retry_delay_Suc [of n] show ?thesis
    by (auto simp: session_inv_def outage_retry_def split: outage_step.splits)
qed

lemma session_inv_reconnected: "session_inv s \<Longrightarrow> session_inv (reconnected b ka s)"
  by (simp add: session_inv_def reconnected_def flush_windows_inv)

lemma forward_step_inv:
  assumes "encode_headers C" and "event_ok C (now, ev)" and "session_inv s"
    and "enabled t0 now ev s" and "forward_step C now ev s w = (Inr (Some s'), w')"
  shows "session_inv s'"
proof -
  have inv: "window_inv (s_windows s)" using assms(3) by (simp add: session_inv_def)
  have ok: "packet_ok p" "encodable C p"
    if "event_packet ev = Some (FromClient p) \<or> event_packet ev = Some (FromBroker p)" for p
    using that assms(2) by (auto simp: event_ok_def)
  show ?thesis
    using assms(5,4) inv
  proof (cases rule: forward_cases)
    case (relay c p win)
    then have "window_inv win" using track_c2b_inv [OF assms(1) ok inv] by auto
    with relay assms(3) show ?thesis by (simp add: session_inv_def)
  next
    case (relay_lost c p win)
    then have "window_inv win" using track_c2b_inv [OF assms(1) ok inv] by auto
    with relay_lost assms(3) show ?thesis by (simp add: session_inv_def)
  next
    case (deliver b p win)
    then have "window_inv win" using track_b2c_inv [OF assms(1) ok inv] by auto
    with deliver assms(3) show ?thesis by (simp add: session_inv_def)
  next
    case (service c p st)
    then have ok: "packet_ok p" "encodable C p" using ok by simp_all
    have "outage_inv st"
      using service_spec_state(2) [OF assms(1) ok session_inv_outage_view [OF assms(3)]
          service_Inr [OF ok service(3)]] .
    with service assms(3) show ?thesis by (simp add: session_inv_def outage_inv_def)
  next
    case (reconnect b ka)
    with assms(3) show ?thesis by (simp add: session_inv_reconnected)
  next
    case retry
    with assms(3) show ?thesis by (simp add: session_inv_retry)
  next
    case (thaw coord c b)
    with assms(3) show ?thesis by (auto simp: session_inv_def)
  qed (use assms(3) in \<open>auto simp: session_inv_def lose_broker_def\<close>)
qed

section \<open>No iteration panics\<close>

lemma orderly_track:
  assumes "encode_headers C" and "packet_ok p" and "encodable C p" and "window_inv w"
  shows "orderly (track_c2b C w p)" "orderly (track_b2c C w p)"
  using track_c2b_inv [OF assms] track_b2c_inv [OF assms] by auto

lemma orderly_service:
  assumes "encode_headers C" and "packet_ok p" and "encodable C p" and "window_inv (os_windows st)"
  shows "orderly_io (service_outage_packet C p st)"
proof (cases "local_answer p = []")
  case True
  have "orderly (service_spec C p st)"
    using orderly_track(1) [OF assms]
    by (auto simp: service_spec_def client_disconnected_def Let_def intro!: orderly_rbind)
  with True assms show ?thesis
    by (simp add: orderly_io_def service_eq_spec)
next
  case False
  then show ?thesis using service_ping [of p C st] by (auto intro!: orderly_then)
qed

lemma orderly_end [simp]: "orderly_io end_session"
  by (simp add: end_session_def)

lemma orderly_forward_to_broker [simp]: "orderly_io (forward_to_broker p s)"
  by (auto simp: orderly_io_def forward_to_broker_def split: prod.splits sum.splits)

lemma orderly_freeze_branch [simp]: "orderly_io (freeze_branch coord s)"
  by (auto simp: freeze_branch_def split: freeze_outcome.splits)

lemma orderly_deadline [simp]: "orderly_io (deadline_branch s)"
  by (simp add: orderly_io_def deadline_branch_def)

lemma forward_step_orderly:
  assumes "encode_headers C" and "decode_consumes C" and "event_ok C (now, ev)" and "session_inv s"
  shows "orderly_io (forward_step C now ev s)"
proof -
  have inv: "window_inv (s_windows s)" using assms(4) by (simp add: session_inv_def)
  have ok: "packet_ok p" "encodable C p"
    if "event_packet ev = Some (FromClient p) \<or> event_packet ev = Some (FromBroker p)" for p
    using that assms(3) by (auto simp: event_ok_def)
  show ?thesis
  proof (cases ev)
    case (EvClient c r)
    show ?thesis
    proof (cases r)
      case (NextPacket p)
      with EvClient ok have p: "packet_ok p" "encodable C p" by simp_all
      have "orderly_io (connected_client C now c r s)"
        using NextPacket orderly_track(1) [OF assms(1) p inv]
        by (auto simp: connected_client_def intro!: orderly_then orderly_bind)
      moreover have "orderly_io (outage_client C now c r s)"
        using NextPacket orderly_service [OF assms(1) p, of "outage_view s"] inv
        by (auto simp: outage_client_def outage_view_def intro!: orderly_bind)
      ultimately show ?thesis
        using EvClient by (simp add: forward_step_def connected_phase_def outage_phase_def)
    qed (use EvClient in \<open>simp_all add: forward_step_def connected_phase_def outage_phase_def
        connected_client_def outage_client_def invalid_data_def\<close>)
  next
    case (EvBroker b r)
    have "orderly (track_b2c C (s_windows s) p)" if "r = NextPacket p" for p
      using that EvBroker ok [of p] by (simp add: orderly_track(2) [OF assms(1) _ _ inv])
    then have "orderly_io (connected_broker C b r s)"
      by (auto simp: connected_broker_def split: next_result.splits packet_splits
          intro!: orderly_then orderly_bind)
    with EvBroker show ?thesis
      by (simp add: forward_step_def connected_phase_def outage_phase_def)
  next
    case (EvWait b)
    have "orderly_io (outage_connected C b' s)" for b'
      using orderly_establish [OF assms(2), of "replay_view s"] assms(4)
      by (auto simp: outage_connected_def replay_view_def session_inv_def intro!: orderly_bind)
    with EvWait show ?thesis
      by (auto simp: forward_step_def connected_phase_def outage_phase_def split: option.splits)
  qed (simp_all add: forward_step_def connected_phase_def outage_phase_def)
qed

interpretation loop: invariant_system
  "session_step C" "event_ok C" "\<lambda>(t, s, w). session_inv s \<and> encode_headers C" for C
proof
  fix c e c'
  assume "(\<lambda>(t, s, w). session_inv s \<and> encode_headers C) c" "event_ok C e" "session_step C c e c'"
  then show "(\<lambda>(t, s, w). session_inv s \<and> encode_headers C) c'"
    by (auto elim!: session_stepE intro: forward_step_inv)
qed

section \<open>The conversation's ledger\<close>

text \<open>
  What a reconnect would leave in the window: the tables after the buffer has been flushed.
  They cover a ledger when they hold every packet the ledger still owes to the broker, and
  exactly the packets it owes to the client. The ledger of a conversation follows the packets
  the loop reads from either connection; what a replay itself delivers (the leftover packets of
  a dead connection) is not part of it.
\<close>

definition covers :: "ledger \<Rightarrow> outage_buffer \<Rightarrow> inflight_windows \<Rightarrow> bool" where
  "covers l b win \<longleftrightarrow>
     fst l \<subseteq>\<^sub>m map_of (c2b (fold flush_window (ob_entries b) win)) \<and> snd l = map_of (b2c win)"

definition conversation ::
  "('x, 'c) rmqtt \<Rightarrow> instant \<times> ('x, 'c) event \<Rightarrow> ledger \<Rightarrow> ledger" where
  "conversation C e l = (case event_packet (snd e) of None \<Rightarrow> l | Some p \<Rightarrow> ledger_event C p l)"

lemma flush_windows_b2c [simp]: "b2c (fold flush_window es w) = b2c w"
  by (induction es arbitrary: w) (simp_all add: flush_window_def insert_c2b_raw_def)

lemma flush_windows_c2b_cong:
  "c2b w = c2b w' \<Longrightarrow> c2b (fold flush_window es w) = c2b (fold flush_window es w')"
proof (induction es arbitrary: w w')
  case (Cons e es)
  have "c2b (flush_window e w) = c2b (flush_window e w')"
    using Cons.prems by (simp add: flush_window_def insert_c2b_raw_def)
  then show ?case unfolding fold_simps by (rule Cons.IH)
qed simp

lemma client_step_mono:
  assumes "up \<subseteq>\<^sub>m up'"
  shows "fst (client_step v raw (up, down)) \<subseteq>\<^sub>m fst (client_step v raw (up', down))"
proof (cases v)
  case (ViewRelease i)
  with assms show ?thesis by (cases "up i"; cases "up' i") (auto simp: map_le_def dom_def)
qed (use assms in \<open>simp_all add: map_le_upd\<close>)

lemma broker_step_mono:
  assumes "up \<subseteq>\<^sub>m up'"
  shows "fst (broker_step v raw (up, down)) \<subseteq>\<^sub>m fst (broker_step v raw (up', down))"
  using assms by (cases v) (simp_all add: map_le_def)

lemma step_snd:
  "snd (client_step v raw (up, down)) = snd (client_step v raw (up', down))"
  "snd (broker_step v raw (up, down)) = snd (broker_step v raw (up', down))"
  by (cases v; simp)+

text \<open>While connected, tracking moves both sides alike.\<close>

lemma covers_track:
  assumes "window_inv win" and "packet_ok (traffic_packet e)" and "encodable C (traffic_packet e)"
    and "track C e win = Inr win'" and "covers l outage_buffer_default win"
  shows "covers (ledger_event C e l) outage_buffer_default win'"
proof -
  obtain up down where l: "l = (up, down)" by (cases l)
  have up: "up \<subseteq>\<^sub>m map_of (c2b win)" and down: "down = map_of (b2c win)"
    using assms(5) by (simp_all add: covers_def l outage_buffer_default_def)
  have led: "(map_of (c2b win'), map_of (b2c win')) = ledger_event C e (map_of (c2b win), down)"
    using track_ledger [OF assms(1-4)] by (simp add: ledger_of_def down)
  have "fst (ledger_event C e (up, down)) \<subseteq>\<^sub>m fst (ledger_event C e (map_of (c2b win), down))"
    and "snd (ledger_event C e (up, down)) = snd (ledger_event C e (map_of (c2b win), down))"
    using up by (cases e; simp add: client_step_mono broker_step_mono step_snd)+
  with led [symmetric] show ?thesis by (simp add: covers_def l outage_buffer_default_def)
qed

lemma view_service:
  assumes "packet_ok p"
  shows "view_of p = ViewPublish i \<Longrightarrow> \<exists>q. owed p = Some (i, q)"
    and "view_of p = ViewRelease i \<Longrightarrow> owed p = Some (i, ExactlyOnce)"
    and "view_of p \<in> {ViewAck i, ViewReceived i, ViewComplete i} \<Longrightarrow> is_client_ack p"
    and "view_of p = ViewNone \<Longrightarrow> \<not> is_client_ack p"
    and "view_of p = ViewNone \<Longrightarrow> owed p = Some (i, q) \<Longrightarrow> packet_type p \<in> {Some 8, Some 10}"
  using assms
  by (auto simp: view_of_def publish_view_def owed_def owed_publish_def packet_ok_def publish_has_id_def
      is_client_ack_def packet_type_def split: packet_splits if_splits option.splits)

lemma owed_not_ack: "owed p \<noteq> None \<Longrightarrow> \<not> is_client_ack p"
  by (auto dest: ack_owes_nothing)

lemma ack_c2b:
  "packet_ok p \<Longrightarrow> is_client_ack p \<Longrightarrow> track_c2b C w p = Inr w' \<Longrightarrow> c2b w' = c2b w"
  by (auto simp: track_c2b_def is_client_ack_def remove_b2c_def split: packet_splits)

lemma covers_ack:
  assumes "window_inv win" and "packet_ok p" and "encodable C p" and "is_client_ack p"
    and "track_c2b C win p = Inr win'" and "covers l b win"
    and "view_of p \<in> {ViewAck i, ViewReceived i, ViewComplete i}"
  shows "covers (client_step (view_of p) (encoding C p) l) b win'"
proof -
  obtain up down where l: "l = (up, down)" by (cases l)
  have "(map_of (c2b win'), map_of (b2c win')) =
      client_step (view_of p) (encoding C p) (map_of (c2b win), map_of (b2c win))"
    using track_ledger [of win "FromClient p" C win'] assms by (simp add: ledger_of_def)
  then have "map_of (b2c win') = snd (client_step (view_of p) (encoding C p) (up, map_of (b2c win)))"
    using step_snd(1) by (metis snd_conv)
  moreover have "fst (client_step (view_of p) (encoding C p) (up, down)) = up"
    using assms(7) by auto
  ultimately show ?thesis
    using assms(6) flush_windows_c2b_cong [OF ack_c2b [OF assms(2,4,5)]]
    by (simp add: covers_def l)
qed

lemma covers_service:
  assumes "encode_headers C" and "packet_ok p" and "encodable C p" and "outage_inv st"
    and "service_spec C p st = Inr st'" and "covers l (os_buffer st) (os_windows st)"
  shows "covers (client_step (view_of p) (encoding C p) l) (os_buffer st') (os_windows st')"
proof -
  obtain up down where l: "l = (up, down)" by (cases l)
  let ?v = "fold flush_window (ob_entries (os_buffer st)) (os_windows st)"
  have up: "up \<subseteq>\<^sub>m map_of (c2b ?v)" and down: "down = map_of (b2c (os_windows st))"
    using assms(6) by (simp_all add: covers_def l)
  have "window_inv ?v" using assms(4) by (simp add: outage_inv_def flush_windows_inv)
  then have d: "distinct (map fst (c2b ?v))" by (simp add: window_inv_def table_ok_def)
  obtain raw where raw: "encode_raw C p = Inr raw" using assms(3) by (auto simp: encodable_def)
  have buf: "ob_entries (os_buffer st') = ob_entries (os_buffer st) @ owed_entries C p"
    using service_spec_state(1) [OF assms(1-5)] by (simp add: buffer_append_def)
  have win: "os_windows st' = os_windows st" if "\<not> is_client_ack p"
    using that assms(5) by (auto simp: service_spec_def Let_def split: if_splits)
  have covers_service_ack: ?thesis if "view_of p \<in> {ViewAck i, ViewReceived i, ViewComplete i}" for i
  proof -
    have ack: "is_client_ack p" using that view_service(3) [OF assms(2)] by blast
    then obtain win' where "track_c2b C (os_windows st) p = Inr win'"
      and "os_windows st' = win'" and "os_buffer st' = os_buffer st"
      using assms(5) by (auto simp: service_spec_def rbind_eq_Inr split: if_splits)
    with covers_ack [OF _ assms(2,3) ack _ assms(6) that] assms(4) show ?thesis
      by (simp add: outage_inv_def)
  qed
  show ?thesis
  proof (cases "view_of p")
    case (ViewPublish i)
    then obtain q where q: "owed p = Some (i, q)" using view_service(1) [OF assms(2)] by blast
    with win owed_not_ack [of p] have "os_windows st' = os_windows st" by simp
    then show ?thesis
      using ViewPublish q raw up down map_of_vec_insert [OF d]
        encode_raw_view(1) [OF assms(1) raw ViewPublish]
      by (auto simp: covers_def l buf owed_entries_def encoding_def flush_window_def
          insert_c2b_raw_def map_le_def)
  next
    case (ViewRelease i)
    then have q: "owed p = Some (i, ExactlyOnce)" using view_service(2) [OF assms(2)] by blast
    with win owed_not_ack [of p] have "os_windows st' = os_windows st" by simp
    then show ?thesis
      using ViewRelease q raw up down map_of_vec_insert [OF d]
        encode_raw_view(2) [OF assms(1) raw ViewRelease]
      by (auto simp: covers_def l buf owed_entries_def encoding_def flush_window_def
          insert_c2b_raw_def map_le_def dom_def)
  next
    case ViewNone
    then have "os_windows st' = os_windows st" using win view_service(4) [OF assms(2)] by simp
    moreover have "fold flush_window (owed_entries C p) w = w" for w
    proof (cases "owed p")
      case (Some iq)
      obtain i q where iq: "iq = (i, q)" by (cases iq)
      with Some view_service(5) [OF assms(2) ViewNone, of i q]
      have "packet_type p = Some 8 \<or> packet_type p = Some 10" by auto
      then have "type_nibble raw = Some 8 \<or> type_nibble raw = Some 10"
        using encode_raw_type [OF assms(1) raw] by blast
      with Some iq raw show ?thesis by (auto simp: owed_entries_def encoding_def flush_window_def)
    qed (simp add: owed_entries_None)
    ultimately show ?thesis using ViewNone up down by (simp add: covers_def l buf)
  next
    case (ViewAck i)
    from covers_service_ack show ?thesis using ViewAck by blast
  next
    case (ViewReceived i)
    from covers_service_ack show ?thesis using ViewReceived by blast
  next
    case (ViewComplete i)
    from covers_service_ack show ?thesis using ViewComplete by blast
  qed
qed

lemma view_local [simp]: "view_of (V5 (V5Disconnect d)) = ViewNone" "is_pong p \<Longrightarrow> view_of p = ViewNone"
  by (auto simp: view_of_def is_pong_def split: packet_splits)

lemma broker_step_none [simp]: "broker_step ViewNone raw l = l"
  by (cases l) simp

lemma covers_step:
  assumes "encode_headers C" and "event_ok C (now, ev)" and "session_inv s"
    and "enabled t0 now ev s" and "forward_step C now ev s w = (Inr (Some s'), w')"
    and "covers l (s_buffer s) (s_windows s)"
  shows "covers (conversation C (now, ev) l) (s_buffer s') (s_windows s')"
proof -
  have inv: "window_inv (s_windows s)" using assms(3) by (simp add: session_inv_def)
  have default: "s_broker s \<noteq> None \<Longrightarrow> s_buffer s = outage_buffer_default"
    using assms(3) by (simp add: session_inv_def)
  have ok: "packet_ok (traffic_packet p)" "encodable C (traffic_packet p)"
    if "event_packet ev = Some p" for p
    using that assms(2) by (auto simp: event_ok_def)
  show ?thesis
    using assms(5,4) inv
  proof (cases rule: forward_cases)
    case (relay c p win)
    then show ?thesis
      using covers_track [OF inv ok, of "FromClient p" win l] assms(6) default
      by (simp add: conversation_def)
  next
    case (relay_lost c p win)
    then show ?thesis
      using covers_track [OF inv ok, of "FromClient p" win l] assms(6) default
      by (simp add: conversation_def)
  next
    case (deliver b p win)
    then show ?thesis
      using covers_track [OF inv ok, of "FromBroker p" win l] assms(6) default
      by (simp add: conversation_def)
  next
    case (lost b r)
    then show ?thesis
      using assms(6) by (cases r) (auto simp: conversation_def lose_broker_def)
  next
    case (service c p st)
    then have ok: "packet_ok p" "encodable C p" using ok [of "FromClient p"] by simp_all
    from covers_service [OF assms(1) ok session_inv_outage_view [OF assms(3)]
        service_Inr [OF ok service(3)], of l] assms(6) service show ?thesis
      by (simp add: conversation_def)
  next
    case (reconnect b ka)
    then show ?thesis
      using assms(6) by (simp add: conversation_def covers_def reconnected_def outage_buffer_default_def)
  qed (use assms(6) in \<open>auto simp: conversation_def outage_retry_def split: outage_step.splits\<close>)
qed

lemma covers_run:
  assumes "encode_headers C" and "session_inv s"
    and "run (session_step C) (t, s, w) es (t', s', w')" and "list_all (event_ok C) es"
    and "covers l (s_buffer s) (s_windows s)"
  shows "covers (fold (conversation C) es l) (s_buffer s') (s_windows s')"
proof -
  let ?R = "\<lambda>l (c :: ('a, 'b) config). covers l (s_buffer (fst (snd c))) (s_windows (fst (snd c)))"
  have "?R (fold (conversation C) es l) (t', s', w')"
  proof (rule loop.ghost_run [OF assms(3) _ assms(4), where R = ?R])
    fix x :: ledger and c e c'
    assume "?R x c" "case c of (t, s, w) \<Rightarrow> session_inv s \<and> encode_headers C"
      "event_ok C e" "session_step C c e c'"
    then show "?R (conversation C e x) c'"
      by (auto elim!: session_stepE intro: covers_step)
  qed (use assms in simp_all)
  then show ?thesis by simp
qed

text \<open>What the flushed window holds was in the window or is in the buffer.\<close>

lemma flush_windows_lookup:
  "window_inv win \<Longrightarrow> map_of (c2b (fold flush_window es win)) i = Some (st, raw) \<Longrightarrow>
   map_of (c2b win) i = Some (st, raw) \<or> raw \<in> bp_raw ` set es"
proof (induction es arbitrary: win)
  case (Cons e es)
  have d: "distinct (map fst (c2b win))" using Cons.prems(1) by (simp add: window_inv_def table_ok_def)
  from Cons.IH [OF flush_window_inv [OF Cons.prems(1), of e]] Cons.prems(2) show ?case
    by (auto simp: flush_window_def insert_c2b_raw_def map_of_vec_insert [OF d] split: if_splits)
qed simp

lemma owed_resent:
  assumes "session_inv s" and "s_broker s = None"
    and "forward_step C now (EvWait (Some b)) s w = (Inr (Some s'), w')"
    and "covers l (s_buffer s) (s_windows s)" and "fst l i = Some (st, raw)"
  shows "\<exists>sent dup r. broker_log w' = broker_log w @ sent \<and> WriteRaw r \<in> set sent \<and>
    resent dup raw r \<and> (dup \<longrightarrow> st = C2BPublishSent)"
proof -
  let ?win = "s_windows s" and ?es = "ob_entries (s_buffer s)"
  have inv: "window_inv ?win" using assms(1) by (simp add: session_inv_def)
  from assms(2,3) obtain rs where
    run: "establish_broker C (hs_version (s_hs s)) (hs_connect_raw (s_hs s)) (s_subscriptions s)
      (replay_view s) w = (Inr rs, w')"
    by (auto simp: forward_step_def outage_phase_def outage_connected_def io_bind_eq_Inr replay_view_def)
  have "window_inv (rs_windows (replay_view s))" using inv by simp
  from establish_Inr [OF run this] obtain head bs where
    bs: "broker_retransmits ?win = Inr bs" and
    log: "broker_log w' = broker_log w @ head @ map WriteRaw bs @ map (WriteRaw \<circ> bp_raw) ?es"
    by (auto simp: append_assoc [symmetric] simp del: append_assoc)
  have held: "map_of (c2b (fold flush_window ?es ?win)) i = Some (st, raw)"
    using assms(4,5) by (auto simp: covers_def map_le_def dom_def)
  then have "raw \<noteq> []"
    using window_raw_nonempty(1) [OF flush_windows_inv [OF inv]] by (blast dest: map_of_SomeD)
  from flush_windows_lookup [OF inv held] show ?thesis
  proof
    assume "map_of (c2b ?win) i = Some (st, raw)"
    then have "(if st = C2BPublishSent then set_dup raw else raw) \<in> set bs"
      using bs by (force simp: broker_retransmits_eq [OF inv] dest: map_of_SomeD)
    with \<open>raw \<noteq> []\<close> log show ?thesis
      by (intro exI [of _ "head @ map WriteRaw bs @ map (WriteRaw \<circ> bp_raw) ?es"]
          exI [of _ "st = C2BPublishSent"] exI [of _ "if st = C2BPublishSent then set_dup raw else raw"])
        (auto simp: resent_set_dup resent_same)
  next
    assume "raw \<in> bp_raw ` set ?es"
    with \<open>raw \<noteq> []\<close> log show ?thesis
      by (intro exI [of _ "head @ map WriteRaw bs @ map (WriteRaw \<circ> bp_raw) ?es"]
          exI [of _ False] exI [of _ raw]) (auto simp: resent_same)
  qed
qed

section \<open>Properties\<close>

text \<open>
  C6. No iteration of the forward loop panics or diverges. From any well-formed session, after
  any sequence of iterations with any failures of the connections, the session is still
  well-formed (in particular, while connected nothing is buffered, and the retry delay is one
  of the doubling sequence), and whatever event comes next is handled in order: the session
  goes on, ends, or returns an I/O error.
\<close>

theorem session_never_panics:
  assumes "encode_headers C" and "decode_consumes C" and "session_inv s"
    and "run (session_step C) (t, s, w) es (t', s', w')" and "list_all (event_ok C) es"
    and "event_ok C (now, ev)"
  shows "session_inv s' \<and> orderly (fst (forward_step C now ev s' w'))"
proof -
  have "session_inv s'" using loop.inv_run [OF assms(4) _ assms(5)] assms(1,3) by simp
  with forward_step_orderly [OF assms(1,2,6)] show ?thesis by (simp add: orderly_io_def)
qed


subsection \<open>A sample session\<close>

definition sample_framed :: "raw_fd \<Rightarrow> bytes \<Rightarrow> unit framed" where
  "sample_framed fd buf = \<lparr>fr_io = fd, fr_codec = V3Codec (), fr_read_buf = buf\<rparr>"

definition sample_session :: "unit session" where
  "sample_session = \<lparr>s_id = 3, s_client = sample_framed 5 [], s_broker = Some (sample_framed 6 []),
     s_hs = sample_hs, s_windows = windows_new, s_subscriptions = [],
     s_buffer = outage_buffer_default, s_leftover = [], s_backoff = BROKER_RETRY_INITIAL,
     s_step = Connect, s_last_activity = 0\<rparr>"

text \<open>A publish whose forwarding fails, and another one during the outage.\<close>

definition sample_events :: "(instant \<times> (unit, unit) event) list" where
  "sample_events =
     [(1, EvClient (sample_framed 5 []) (NextPacket (sample_publish AtLeastOnce 7))),
      (2, EvClient (sample_framed 5 []) (NextPacket (sample_publish ExactlyOnce 9)))]"

definition sample_failing :: "unit world" where
  "sample_failing = sample_world\<lparr>broker_ok := [False]\<rparr>"

lemma sample_session_inv: "session_inv sample_session"
  by (simp add: session_inv_def sample_session_def window_inv_new)

lemma sample_events_ok: "list_all (event_ok sample_rmqtt) sample_events"
  by (simp add: sample_events_def event_ok_def sample_publish_def packet_ok_def publish_has_id_def
      sample_encode_raw)

definition sample_lost :: "unit session" where
  "sample_lost = sample_session\<lparr>s_broker := None, s_last_activity := 1,
     s_windows := \<lparr>c2b = [(7, C2BPublishSent, [48, 0])], b2c = []\<rparr>\<rparr>"

definition sample_buffering :: "unit session" where
  "sample_buffering = sample_lost\<lparr>s_last_activity := 2, s_buffer :=
     \<lparr>ob_entries = [\<lparr>bp_packet_id = 9, bp_raw = [48, 0], bp_qos = 2\<rparr>], ob_bytes = 2\<rparr>\<rparr>"

lemmas sample_step_defs =
  forward_step_def connected_phase_def connected_client_def outage_phase_def outage_client_def
  local_pong_def forward_to_broker_def track_c2b_def c2b_insert_def encode_raw_def
  expect_encoded_def insert_c2b_raw_def vec_insert_def sub_track_def io_bind_def io_then_def
  service_outage_packet_def is_client_ack_def buffer_publish_def outage_push_def
  broker_send_def broker_do_def script_head_def OUTAGE_BUFFER_MAX_BYTES_def
  sample_rmqtt_def sample_encode_def sample_publish_def packet_type_def windows_new_def
  outage_buffer_default_def

lemma sample_run_next:
  "run (session_step sample_rmqtt) (0, sample_session, sample_failing\<lparr>broker_next := ns\<rparr>) sample_events
     (2, sample_buffering, sample_failing\<lparr>broker_next := ns, broker_ok := []\<rparr>)"
proof -
  let ?w0 = "sample_failing\<lparr>broker_next := ns\<rparr>"
  let ?w1 = "sample_failing\<lparr>broker_next := ns, broker_ok := []\<rparr>"
  have 1: "session_step sample_rmqtt (0, sample_session, ?w0) (hd sample_events)
      (1, sample_lost, ?w1)"
    by (auto simp: sample_events_def session_step_iff enabled_def sample_session_def sample_lost_def
        sample_failing_def sample_world_def sample_step_defs)
  have 2: "session_step sample_rmqtt (1, sample_lost, ?w1) (last sample_events)
      (2, sample_buffering, ?w1)"
    by (auto simp: sample_events_def session_step_iff enabled_def sample_session_def sample_lost_def
        sample_buffering_def sample_failing_def sample_world_def sample_step_defs)
  have "run (session_step sample_rmqtt) (0, sample_session, ?w0)
      [hd sample_events, last sample_events] (2, sample_buffering, ?w1)"
    using 1 2 by (blast intro: run_cons run_nil)
  then show ?thesis by (simp add: sample_events_def)
qed

lemma sample_run:
  "\<exists>w'. run (session_step sample_rmqtt) (0, sample_session, sample_failing) sample_events
     (2, sample_buffering, w')"
  using sample_run_next [of "[]"] by (auto simp: sample_failing_def sample_world_def)

text \<open>The broker comes back and accepts the session: the replay of the sample session succeeds.\<close>

definition sample_back :: "unit world" where
  "sample_back = sample_failing\<lparr>broker_next := [NextPacket (V3 (V3ConnectAck ()))], broker_ok := []\<rparr>"

lemma sample_buffering_inv: "session_inv sample_buffering"
  by (simp add: session_inv_def sample_buffering_def sample_lost_def sample_session_def
      window_inv_def table_ok_def entry_ok_def buffer_inv_def OUTAGE_BUFFER_MAX_BYTES_def)

lemma sample_reconnects:
  "\<exists>s' w'. forward_step sample_rmqtt 3 (EvWait (Some (sample_framed 8 []))) sample_buffering sample_back =
     (Inr (Some s'), w')"
proof -
  have "hs_connect_raw sample_hs = layout_bytes sample_layout"
    by (simp add: sample_hs_def layout_bytes_def sample_layout_def)
  then have force: "\<exists>raw. force_session_resumption (hs_connect_raw sample_hs) = Inr raw"
    using force_layout sample_replay_ok(5) by auto
  have "\<exists>rs w'. establish_broker sample_rmqtt MQTT3 (hs_connect_raw sample_hs) []
      (replay_view sample_buffering) sample_back = (Inr rs, w')"
    using establish_succeeds [OF sample_decode_consumes, of "replay_view sample_buffering" sample_back]
      sample_buffering_inv force
    by (auto simp: session_inv_def sample_back_def sample_failing_def sample_world_def all_ok_def
        broker_answers_def resubscribe_packet_def)
  then show ?thesis
    by (auto simp: forward_step_def outage_phase_def outage_connected_def io_bind_def replay_view_def
        sample_buffering_def sample_lost_def sample_session_def sample_hs_def)
qed

theorem session_never_panics_witness:
  "\<exists>w'. run (session_step sample_rmqtt) (0, sample_session, sample_failing) sample_events
     (2, sample_buffering, w') \<and> session_inv sample_buffering \<and>
   orderly (fst (forward_step sample_rmqtt 3 (EvWait (Some (sample_framed 8 []))) sample_buffering w'))"
proof -
  obtain w' where run: "run (session_step sample_rmqtt) (0, sample_session, sample_failing)
      sample_events (2, sample_buffering, w')"
    using sample_run by blast
  from session_never_panics [OF sample_headers sample_decode_consumes sample_session_inv run
      sample_events_ok, of 3 "EvWait (Some (sample_framed 8 []))"] run show ?thesis
    by (auto simp: event_ok_def)
qed


end
