(* ===== verification/Lifecycle.thy ===== *)
theory Lifecycle
  imports Session
begin

text \<open>
  What a session promises to its peers over its life: the connected phase relays both
  directions in order, the loss of the broker is invisible to the client, reconnects are
  attempted on the documented schedule, the keepalive deadline spares a client that speaks, a
  rolled-back freeze changes nothing, and a migrated session takes up where it was frozen.
\<close>

section \<open>Relaying\<close>

fun to_broker :: "('x, 'c) event \<Rightarrow> 'x out list" where
  "to_broker (EvClient c (NextPacket p)) = [SendPacket p]"
| "to_broker ev = []"

definition upstream_pong :: "'x mqtt_packet \<Rightarrow> bool" where
  "upstream_pong p \<longleftrightarrow> p = V3 V3PingResponse \<or> p = V5 V5PingResponse"

fun to_client :: "('x, 'c) event \<Rightarrow> 'x out list" where
  "to_client (EvClient c (NextPacket p)) = local_answer p"
| "to_client (EvBroker b (NextPacket p)) = (if upstream_pong p then [] else [SendPacket p])"
| "to_client ev = []"

definition is_relay :: "instant \<times> ('x, 'c) event \<Rightarrow> bool" where
  "is_relay e \<longleftrightarrow> event_packet (snd e) \<noteq> None"

lemma is_pong_iff: "is_pong p \<longleftrightarrow> upstream_pong p"
  by (auto simp: is_pong_def upstream_pong_def split: packet_splits)

lemma relay_step:
  assumes "session_step C (t, s, w) (now, ev) (t', s', w')" and "session_inv s"
    and "is_relay (now, ev)" and "s_broker s' \<noteq> None"
  shows "s_broker s \<noteq> None \<and> broker_log w' = broker_log w @ to_broker ev \<and>
    client_log w' = client_log w @ to_client ev"
proof -
  from assms(1) have "forward_step C now ev s w = (Inr (Some s'), w')" "enabled t now ev s"
    by (simp_all add: session_step_iff)
  moreover have "window_inv (s_windows s)" using assms(2) by (simp add: session_inv_def)
  ultimately show ?thesis
    by (cases rule: forward_cases) (use assms(3,4) in \<open>auto simp: is_relay_def lose_broker_def is_pong_iff\<close>)
qed

lemma relay_run:
  assumes "run (session_step C) c es c'" and "encode_headers C" and "session_inv (fst (snd c))"
    and "list_all (event_ok C) es" and "list_all is_relay es" and "s_broker (fst (snd c')) \<noteq> None"
  shows "broker_log (snd (snd c')) = broker_log (snd (snd c)) @ concat (map (to_broker \<circ> snd) es) \<and>
    client_log (snd (snd c')) = client_log (snd (snd c)) @ concat (map (to_client \<circ> snd) es)"
  using assms
proof (induction rule: run.induct)
  case (run_nil c)
  then show ?case by simp
next
  case (run_snoc c es c' e c'')
  obtain t s w where c': "c' = (t, s, w)" by (cases c')
  obtain t' s' w' where c'': "c'' = (t', s', w')" by (cases c'')
  obtain now ev where e: "e = (now, ev)" by (cases e)
  have inv: "session_inv s"
    using loop.inv_run [OF run_snoc.hyps(1)] run_snoc.prems by (cases c) (simp add: c')
  have "s_broker s \<noteq> None \<and> broker_log w' = broker_log w @ to_broker ev \<and>
      client_log w' = client_log w @ to_client ev"
    using relay_step [OF run_snoc.hyps(2) [unfolded c' c'' e] inv] run_snoc.prems
    by (simp add: c'' e)
  with run_snoc.IH run_snoc.prems show ?case by (simp add: c' c'' e)
qed

text \<open>The broker's part of a relay that cannot fail: no DISCONNECT, no failing write.\<close>

definition smooth :: "instant \<times> ('x, 'c) event \<Rightarrow> bool" where
  "smooth e \<longleftrightarrow> (case event_packet (snd e) of
      None \<Rightarrow> False
    | Some (FromClient p) \<Rightarrow> True
    | Some (FromBroker p) \<Rightarrow> (\<forall>d. p \<noteq> V5 (V5Disconnect d)))"

lemma smooth_step:
  assumes "encode_headers C" and "event_ok C (now, ev)" and "smooth (now, ev)"
    and "session_inv s" and "s_broker s \<noteq> None" and "all_ok w" and "t \<le> now"
  shows "\<exists>s' w'. session_step C (t, s, w) (now, ev) (now, s', w') \<and> s_broker s' \<noteq> None \<and> all_ok w'"
proof -
  have inv: "window_inv (s_windows s)" using assms(4) by (simp add: session_inv_def)
  show ?thesis
  proof (cases ev rule: event_packet.cases)
    case (1 c p)
    with assms(2) have p: "packet_ok p" "encodable C p" by (simp_all add: event_ok_def)
    obtain win where win: "track_c2b C (s_windows s) p = Inr win"
      using track_c2b_inv [OF assms(1) p inv] by blast
    obtain w1 where w1: "local_pong p w = (Inr (), w1)" "all_ok w1"
      using safe_local_pong assms(6) unfolding safe_def by blast
    obtain w2 where w2: "broker_send p w1 = (Inr (), w2)" "all_ok w2"
      using safe_writes(2) w1(2) unfolding safe_def by blast
    have "forward_step C now ev s w = (Inr (Some (relayed C now c p win s)), w2)"
      using 1 assms(5) win w1 w2
      by (simp add: forward_step_def connected_phase_def connected_client_def io_then_def io_bind_def
          forward_to_broker_def relayed_def)
    with 1 assms(5,7) w2 show ?thesis
      by (intro exI [of _ "relayed C now c p win s"] exI [of _ w2])
        (simp add: session_step_iff enabled_def)
  next
    case (2 b p)
    with assms(2,3) have p: "packet_ok p" "encodable C p" "\<And>d. p \<noteq> V5 (V5Disconnect d)"
      by (simp_all add: event_ok_def smooth_def)
    obtain win where win: "track_b2c C (s_windows s) p = Inr win"
      using track_b2c_inv [OF assms(1) p(1,2) inv] by blast
    obtain w1 where w1: "client_send p w = (Inr (), w1)" "all_ok w1"
      using safe_writes(1) assms(6) unfolding safe_def by blast
    have "connected_broker C b (NextPacket p) s =
        (if is_pong p then io_return (Some (s\<lparr>s_broker := Some b\<rparr>))
         else io_bind (io_lift (track_b2c C (s_windows s) p)) (\<lambda>windows.
           io_then (client_send p) (io_return (Some (s\<lparr>s_broker := Some b, s_windows := windows\<rparr>)))))"
      using p(3) by (auto simp: connected_broker_def split: packet_splits)
    then have "\<exists>s' w'. forward_step C now ev s w = (Inr (Some s'), w') \<and> s_broker s' \<noteq> None \<and> all_ok w'"
      using 2 assms(5,6) win w1
      by (simp add: forward_step_def connected_phase_def io_then_def io_bind_def)
    with 2 assms(5,7) show ?thesis by (auto simp: session_step_iff enabled_def)
  qed (use assms(3) in \<open>simp_all add: smooth_def\<close>)
qed

lemma smooth_run:
  assumes "encode_headers C"
  shows "list_all (event_ok C) es \<Longrightarrow> list_all smooth es \<Longrightarrow> sorted (t # map fst es) \<Longrightarrow>
    session_inv s \<Longrightarrow> s_broker s \<noteq> None \<Longrightarrow> all_ok w \<Longrightarrow>
    \<exists>t' s' w'. run (session_step C) (t, s, w) es (t', s', w') \<and> s_broker s' \<noteq> None"
proof (induction es arbitrary: t s w)
  case Nil
  then show ?case by (blast intro: run_nil)
next
  case (Cons e es)
  obtain now ev where e: "e = (now, ev)" by (cases e)
  with Cons.prems obtain s1 w1 where st: "session_step C (t, s, w) (now, ev) (now, s1, w1)"
    "s_broker s1 \<noteq> None" "all_ok w1"
    using smooth_step [OF assms, of now ev s w t] by auto
  have "session_inv s1"
    using st(1) forward_step_inv [OF assms] Cons.prems e by (auto simp: session_step_iff)
  with Cons.IH [of now s1 w1] Cons.prems st e obtain t' s' w' where
    "run (session_step C) (now, s1, w1) es (t', s', w')" "s_broker s' \<noteq> None" by auto
  with st(1) show ?case unfolding e by (blast intro: run_cons)
qed

text \<open>An event decides what an iteration does: two runs over the same events agree.\<close>

lemma run_deterministic:
  assumes "run (session_step C) c es c1" and "run (session_step C) c es c2"
  shows "snd c1 = snd c2"
  using assms
proof (induction arbitrary: c2 rule: run.induct)
  case (run_nil c)
  then show ?case by (auto elim: run_nilE)
next
  case (run_snoc c es c1 e c1')
  from run_snoc.prems obtain c2' where "run (session_step C) c es c2'" "session_step C c2' e c2"
    by (auto elim: run_snocE)
  with run_snoc.IH [of c2'] run_snoc.hyps(2) show ?case by (auto elim!: session_stepE)
qed

text \<open>
  The instant of the client's last packet, and events that come in time for the keep alive
  \<open>ka\<close>: less than one and a half keep alives after it.
\<close>

fun client_spoke :: "instant \<times> ('x, 'c) event \<Rightarrow> instant \<Rightarrow> instant" where
  "client_spoke (now, EvClient c (NextPacket p)) t0 = now"
| "client_spoke e t0 = t0"

fun prompt :: "nat \<Rightarrow> instant \<Rightarrow> (instant \<times> ('x, 'c) event) list \<Rightarrow> bool" where
  "prompt ka t0 [] = True"
| "prompt ka t0 (e # es) =
     (2 * fst e < 2 * t0 + 3 * secs ka \<and> prompt ka (client_spoke e t0) es)"

lemma prompt_at:
  "prompt ka t0 (es1 @ e # es2) \<Longrightarrow> 2 * fst e < 2 * fold client_spoke es1 t0 + 3 * secs ka"
  by (induction es1 arbitrary: t0) simp_all

lemma client_spoke_eq:
  "client_spoke (now, ev) t0 = (case ev of EvClient c (NextPacket p) \<Rightarrow> now | _ \<Rightarrow> t0)"
  by (cases ev rule: event_packet.cases) simp_all

section \<open>Properties of the connected phase\<close>

text \<open>
  C8. The connected phase relays transparently. Over any sequence of packets from both sides
  after which the broker connection is still up, the broker has received exactly the client's
  packets and the client exactly the broker's packets and one PINGRESP for each of its own
  PINGREQs, both in arrival order; the broker's PINGRESPs go no further.
\<close>

theorem connected_relays_in_order:
  assumes "encode_headers C" and "session_inv s"
    and "run (session_step C) (t, s, w) es (t', s', w')" and "list_all (event_ok C) es"
    and "list_all is_relay es" and "s_broker s' \<noteq> None"
  shows "broker_log w' = broker_log w @ concat (map (to_broker \<circ> snd) es) \<and>
    client_log w' = client_log w @ concat (map (to_client \<circ> snd) es)"
  using relay_run [OF assms(3,1) _ assms(4,5)] assms(2,6) by simp

text \<open>
  C20. Losing the broker is invisible to the client. When the broker connection ends, fails or
  is closed with an administrative DISCONNECT, nothing is written to either side, and the
  session goes on in the outage phase with the unread broker bytes set aside and everything
  else unchanged; every other DISCONNECT reaches the client and ends the session.
\<close>

theorem broker_loss_invisible:
  assumes "s_broker s \<noteq> None" and "all_ok w"
    and "r = NextNone \<or> r = NextErr e \<or> r = NextPacket (V5 (V5Disconnect d))"
  shows "if r = NextPacket (V5 (V5Disconnect d)) \<and> dis_reason_code d \<notin>
      {NormalDisconnection, ServerShuttingDown, ServerBusy, UseAnotherServer, ServerMoved}
    then \<exists>w'. forward_step C now (EvBroker b r) s w = (Inr None, w') \<and>
      client_log w' = client_log w @ [SendPacket (V5 (V5Disconnect d))] \<and>
      broker_log w' = broker_log w
    else forward_step C now (EvBroker b r) s w =
      (Inr (Some (s\<lparr>s_broker := None, s_leftover := fr_read_buf b\<rparr>)), w)"
proof -
  obtain w1 where w1: "client_send (V5 (V5Disconnect d)) w = (Inr (), w1)"
    using safe_writes(1) assms(2) unfolding safe_def by blast
  with emitsD [OF emits_writes(1) w1] assms(1,3) show ?thesis
    by (auto simp: forward_step_def connected_phase_def connected_broker_def lose_broker_def
        io_then_def io_bind_def end_session_def is_retryable_disconnect_def)
qed

theorem broker_loss_invisible_witness:
  "forward_step sample_rmqtt 1 (EvBroker (sample_framed 6 [64, 0]) NextNone) sample_session sample_world =
     (Inr (Some (sample_session\<lparr>s_broker := None, s_leftover := [64, 0]\<rparr>)), sample_world)"
  using broker_loss_invisible [of sample_session sample_world NextNone "[]" undefined sample_rmqtt 1
      "sample_framed 6 [64, 0]"]
  by (simp add: sample_session_def sample_world_def all_ok_def sample_framed_def)

definition sample_talk :: "(instant \<times> (unit, unit) event) list" where
  "sample_talk = [(1, EvClient (sample_framed 5 []) (NextPacket (sample_publish AtLeastOnce 7))),
     (2, EvBroker (sample_framed 6 []) (NextPacket (V3 (V3PublishAck 7)))),
     (3, EvClient (sample_framed 5 []) (NextPacket (V3 V3PingRequest))),
     (4, EvBroker (sample_framed 6 []) (NextPacket (V3 V3PingResponse)))]"

lemma sample_talk_ok:
  "list_all (event_ok sample_rmqtt) sample_talk" "list_all smooth sample_talk"
  "list_all is_relay sample_talk" "sorted (0 # map fst sample_talk)"
  by (simp_all add: sample_talk_def event_ok_def smooth_def is_relay_def sample_publish_def
      packet_ok_def publish_has_id_def sample_encode_raw)

lemma sample_session_connected: "s_broker sample_session \<noteq> None" "all_ok sample_world"
  by (simp_all add: sample_session_def all_ok_def sample_world_def)

theorem connected_relays_in_order_witness:
  "\<exists>t' s' w'. run (session_step sample_rmqtt) (0, sample_session, sample_world) sample_talk (t', s', w') \<and>
    broker_log w' = [SendPacket (sample_publish AtLeastOnce 7), SendPacket (V3 V3PingRequest)] \<and>
    client_log w' = [SendPacket (V3 (V3PublishAck 7)), SendPacket (V3 V3PingResponse)]"
proof -
  obtain t' s' w' where run: "run (session_step sample_rmqtt) (0, sample_session, sample_world)
      sample_talk (t', s', w')" "s_broker s' \<noteq> None"
    using smooth_run [OF sample_headers sample_talk_ok(1,2,4) sample_session_inv
        sample_session_connected] by blast
  from connected_relays_in_order [OF sample_headers sample_session_inv run(1) sample_talk_ok(1,3) run(2)]
    run(1) show ?thesis
    by (intro exI [of _ t'] exI [of _ s'] exI [of _ w'])
      (simp add: sample_talk_def sample_world_def local_answer_def upstream_pong_def sample_publish_def)
qed

section \<open>The outage phase\<close>

lemma outage_retry_Connect: "s_step s = Connect \<Longrightarrow> outage_retry s =
    s\<lparr>s_step := Backoff (s_backoff s), s_backoff := min (s_backoff s * 2) BROKER_RETRY_MAX\<rparr>"
  by (simp add: outage_retry_def)

lemma outage_retry_Backoff: "s_step s = Backoff d \<Longrightarrow> outage_retry s = s\<lparr>s_step := Connect\<rparr>"
  by (simp add: outage_retry_def)

lemma retries:
  assumes "s_step s = Connect" and "s_backoff s = BROKER_RETRY_INITIAL"
  shows "(outage_retry ^^ (2 * n)) s = s\<lparr>s_step := Connect, s_backoff := retry_delay n\<rparr> \<and>
    (outage_retry ^^ (2 * n + 1)) s =
      s\<lparr>s_step := Backoff (retry_delay n), s_backoff := retry_delay (Suc n)\<rparr>"
proof (induction n)
  case 0
  then show ?case
    using assms retry_delay_Suc [of 0] by (simp add: outage_retry_Connect retry_delay_0)
next
  case (Suc n)
  have "(outage_retry ^^ (2 * Suc n)) s = outage_retry ((outage_retry ^^ (2 * n + 1)) s)"
    by simp
  also have "\<dots> = s\<lparr>s_step := Connect, s_backoff := retry_delay (Suc n)\<rparr>"
    using Suc by (simp add: outage_retry_Backoff del: funpow.simps)
  finally have even: "(outage_retry ^^ (2 * Suc n)) s =
      s\<lparr>s_step := Connect, s_backoff := retry_delay (Suc n)\<rparr>" .
  have "(outage_retry ^^ (2 * Suc n + 1)) s = outage_retry ((outage_retry ^^ (2 * Suc n)) s)"
    by simp
  also have "\<dots> = s\<lparr>s_step := Backoff (retry_delay (Suc n)), s_backoff := retry_delay (Suc (Suc n))\<rparr>"
    unfolding even using retry_delay_Suc [of "Suc n"] by (simp add: outage_retry_Connect)
  finally show ?case using even by blast
qed

text \<open>The answers the proxy gives on its own account, whatever comes of the iteration.\<close>

fun ping_answers :: "('x, 'c) event \<Rightarrow> 'x out list" where
  "ping_answers (EvClient c (NextPacket p)) = local_answer p"
| "ping_answers ev = []"

definition is_reconnect :: "('x, 'c) event \<Rightarrow> bool" where
  "is_reconnect ev \<longleftrightarrow> (\<exists>b. ev = EvWait (Some b))"

lemma service_writes:
  assumes "packet_ok p" and "encodable C p" and "service_outage_packet C p st w = (r, w')"
  shows "broker_log w' = broker_log w \<and> client_log w' \<in> {client_log w, client_log w @ local_answer p}"
proof (cases "local_answer p = []")
  case True
  with assms service_eq_spec show ?thesis by fastforce
next
  case False
  then obtain q where q: "local_answer p = [SendPacket q]"
    "service_outage_packet C p st = io_then (client_send q) (io_return st)"
    using service_ping by blast
  with assms(3) show ?thesis
    by (auto simp: io_then_def io_bind_def client_send_def client_do_def Let_def split: if_splits)
qed

lemma outage_writes:
  assumes "s_broker s = None" and "\<not> is_reconnect ev" and "event_ok C (now, ev)"
    and "forward_step C now ev s w = (r, w')"
  shows "broker_log w' = broker_log w \<and> (\<exists>l. client_log w' = client_log w @ l \<and>
    (l = [] \<or> l = ping_answers ev \<or>
     ev = EvDeadline \<and> hs_version (s_hs s) = MQTT5 \<and> r = Inr None \<and>
       l = [SendPacket keepalive_disconnect]))"
proof (cases ev)
  case (EvClient c x)
  show ?thesis
  proof (cases x)
    case (NextPacket p)
    with EvClient assms(3) have "packet_ok p" "encodable C p" by (simp_all add: event_ok_def)
    moreover from EvClient NextPacket assms(1,4) obtain r1 where
      "service_outage_packet C p (outage_view s) w = (r1, w')"
      by (auto simp: forward_step_def outage_phase_def outage_client_def io_bind_def outage_view_def
          split: prod.splits sum.splits)
    ultimately show ?thesis using service_writes EvClient NextPacket by fastforce
  qed (use EvClient assms(1,4) in \<open>auto simp: forward_step_def outage_phase_def outage_client_def
      end_session_def\<close>)
next
  case (EvFreeze coord)
  with assms(1,4) show ?thesis
    by (auto simp: forward_step_def outage_phase_def freeze_branch_def end_session_def
        split: freeze_outcome.splits)
next
  case EvDeadline
  with assms(1,4) show ?thesis
    by (auto simp: forward_step_def outage_phase_def deadline_branch_def close_for_keepalive_log)
next
  case (EvWait b)
  with assms(1,2,4) show ?thesis
    by (cases b) (auto simp: forward_step_def outage_phase_def is_reconnect_def)
qed (use assms(1,4) in \<open>auto simp: forward_step_def outage_phase_def end_session_def\<close>)

lemma outage_run_logs:
  assumes "run (session_step C) c es c'" and "encode_headers C" and "session_inv (fst (snd c))"
    and "list_all (event_ok C) es" and "list_all (\<lambda>e. \<not> is_reconnect (snd e)) es"
    and "s_broker (fst (snd c)) = None"
  shows "s_broker (fst (snd c')) = None \<and> broker_log (snd (snd c')) = broker_log (snd (snd c)) \<and>
    client_log (snd (snd c')) = client_log (snd (snd c)) @ concat (map (ping_answers \<circ> snd) es)"
  using assms
proof (induction rule: run.induct)
  case (run_nil c)
  then show ?case by simp
next
  case (run_snoc c es c' e c'')
  obtain t s w where c': "c' = (t, s, w)" by (cases c')
  obtain t' s' w' where c'': "c'' = (t', s', w')" by (cases c'')
  obtain now ev where e: "e = (now, ev)" by (cases e)
  have inv: "session_inv s"
    using loop.inv_run [OF run_snoc.hyps(1)] run_snoc.prems by (cases c) (simp add: c')
  from run_snoc.hyps(2) have st: "forward_step C now ev s w = (Inr (Some s'), w')" "enabled t now ev s"
    by (simp_all add: session_step_iff c' c'' e)
  have "s_broker s = None" using run_snoc.IH run_snoc.prems by (simp add: c')
  moreover have "window_inv (s_windows s)" using inv by (simp add: session_inv_def)
  with st have "s_broker s' = None \<and> broker_log w' = broker_log w \<and>
      client_log w' = client_log w @ ping_answers ev"
    by (cases rule: forward_cases)
      (use \<open>s_broker s = None\<close> run_snoc.prems e in
        \<open>auto simp: is_reconnect_def outage_retry_def dest!: service_log split: outage_step.splits\<close>)
  ultimately show ?case using run_snoc.IH run_snoc.prems by (simp add: c' c'' e)
qed

text \<open>
  C18. Nothing is acknowledged on the broker's behalf. From the start of an outage until the
  next successful connection attempt, whatever the client sends, however often connecting
  fails and the session is frozen and resumed, the client receives one PINGRESP per PINGREQ and
  no other packet, and nothing is written to a broker. The iteration that ends the session, if
  one does, adds at most a PINGRESP to that, or, when a v5 client's keepalive deadline has
  passed, the closing DISCONNECT.
\<close>

theorem outage_withholds_acks:
  assumes "encode_headers C" and "session_inv s" and "s_broker s = None"
    and "run (session_step C) (t, s, w) es (t', s', w')" and "list_all (event_ok C) es"
    and "list_all (\<lambda>e. \<not> is_reconnect (snd e)) es"
    and "event_ok C (now, ev)" and "\<not> is_reconnect ev" and "forward_step C now ev s' w' = (r, w'')"
  shows "s_broker s' = None \<and> broker_log w' = broker_log w \<and>
    client_log w' = client_log w @ concat (map (ping_answers \<circ> snd) es) \<and>
    broker_log w'' = broker_log w \<and> (\<exists>l. client_log w'' = client_log w' @ l \<and>
      (l = [] \<or> l = ping_answers ev \<or>
       ev = EvDeadline \<and> hs_version (s_hs s') = MQTT5 \<and> r = Inr None \<and>
         l = [SendPacket keepalive_disconnect]))"
proof -
  have run: "s_broker s' = None" "broker_log w' = broker_log w"
    "client_log w' = client_log w @ concat (map (ping_answers \<circ> snd) es)"
    using outage_run_logs [OF assms(4,1) _ assms(5,6)] assms(2,3) by simp_all
  from outage_writes [OF run(1) assms(8,7,9)] run show ?thesis by simp
qed

definition is_failed_wait :: "instant \<times> ('x, 'c) event \<Rightarrow> bool" where
  "is_failed_wait e \<longleftrightarrow> snd e = EvWait None"

lemma failed_wait_step:
  assumes "session_step C (t, s, w) e (t', s', w')" and "is_failed_wait e"
  shows "s' = outage_retry s \<and> w' = w \<and>
    t + (case s_step s of Connect \<Rightarrow> 0 | Backoff d \<Rightarrow> d) \<le> t'"
  using assms
  by (cases e) (auto simp: session_step_iff is_failed_wait_def enabled_def forward_step_def
      outage_phase_def split: outage_step.splits)

lemma failed_wait_run:
  assumes "run (session_step C) c es c'" and "list_all is_failed_wait es"
  shows "fst (snd c') = (outage_retry ^^ length es) (fst (snd c)) \<and> snd (snd c') = snd (snd c) \<and>
    fst c + (\<Sum>k<length es. case s_step ((outage_retry ^^ k) (fst (snd c))) of
      Connect \<Rightarrow> 0 | Backoff d \<Rightarrow> d) \<le> fst c'"
  using assms
proof (induction rule: run.induct)
  case (run_nil c)
  then show ?case by simp
next
  case (run_snoc c es c' e c'')
  obtain t s w where c': "c' = (t, s, w)" by (cases c')
  obtain t' s' w' where c'': "c'' = (t', s', w')" by (cases c'')
  have "is_failed_wait e" using run_snoc.prems by simp
  from failed_wait_step [OF run_snoc.hyps(2) [unfolded c' c''] this] run_snoc show ?case
    by (simp add: c' c'')
qed

lemma sum_pairs: "(\<Sum>k<2 * n. f k) = (\<Sum>k<n. f (2 * k) + f (2 * k + 1 :: nat))"
  for f :: "nat \<Rightarrow> nat"
  by (induction n) simp_all

text \<open>
  C22. The retry schedule. From the start of an outage, while the client is silent, \<open>n\<close> failed
  connection attempts and the sleeps after them take at least the sum of the delays
  \<open>min (100 ms * 2 ^ k) (5 s)\<close>, \<open>k < n\<close>; the session is then ready for the next attempt, with
  everything but the delay as it was, and nothing has been written to anyone.
\<close>

theorem retry_schedule:
  assumes "run (session_step C) (t, s, w) es (t', s', w')" and "list_all is_failed_wait es"
    and "length es = 2 * n" and "s_step s = Connect" and "s_backoff s = BROKER_RETRY_INITIAL"
  shows "s' = s\<lparr>s_backoff := min (100000000 * 2 ^ n) 5000000000\<rparr> \<and> w' = w \<and>
    t + (\<Sum>k<n. min (100000000 * 2 ^ k) 5000000000) \<le> t'"
proof -
  note run = failed_wait_run [OF assms(1,2), unfolded assms(3)]
  have s': "s' = s\<lparr>s_step := Connect, s_backoff := retry_delay n\<rparr>"
    using run retries [OF assms(4,5), of n] by simp
  have "(\<Sum>k<2 * n. case s_step ((outage_retry ^^ k) s) of Connect \<Rightarrow> 0 | Backoff d \<Rightarrow> d) =
      (\<Sum>k<n. retry_delay k)"
    unfolding sum_pairs
    by (rule sum.cong) (use retries [OF assms(4,5)] in \<open>simp_all del: funpow.simps\<close>)
  moreover have "s\<lparr>s_step := Connect, s_backoff := b\<rparr> = s\<lparr>s_backoff := b\<rparr>" for b
    using assms(4) by (cases s) simp
  ultimately show ?thesis using run s' by (simp add: retry_delay_def BROKER_RETRY_INITIAL_def BROKER_RETRY_MAX_def)
qed

definition sample_retries :: "(instant \<times> (unit, unit) event) list" where
  "sample_retries = [(2, EvWait None), (100000002, EvWait None)]"

theorem retry_schedule_witness:
  "\<exists>s'. run (session_step sample_rmqtt) (1, sample_lost, sample_world) sample_retries
      (100000002, s', sample_world) \<and> s' = sample_lost\<lparr>s_backoff := 200000000\<rparr>"
proof -
  let ?s1 = "sample_lost\<lparr>s_step := Backoff 100000000, s_backoff := 200000000\<rparr>"
  let ?s2 = "sample_lost\<lparr>s_step := Connect, s_backoff := 200000000\<rparr>"
  have 1: "session_step sample_rmqtt (1, sample_lost, sample_world) (2, EvWait None) (2, ?s1, sample_world)"
    by (simp add: session_step_iff enabled_def sample_lost_def sample_session_def forward_step_def
        outage_phase_def outage_retry_def BROKER_RETRY_INITIAL_def BROKER_RETRY_MAX_def)
  have 2: "session_step sample_rmqtt (2, ?s1, sample_world) (100000002, EvWait None)
      (100000002, ?s2, sample_world)"
    by (simp add: session_step_iff enabled_def sample_lost_def sample_session_def forward_step_def
        outage_phase_def outage_retry_def)
  have run: "run (session_step sample_rmqtt) (1, sample_lost, sample_world) sample_retries
      (100000002, ?s2, sample_world)"
    unfolding sample_retries_def using 1 2 by (blast intro: run_cons run_nil)
  from retry_schedule [OF run, of 1] run show ?thesis
    by (auto simp: sample_retries_def is_failed_wait_def sample_lost_def sample_session_def
        BROKER_RETRY_INITIAL_def BROKER_RETRY_MAX_def)
qed

definition pings :: "'c framed \<Rightarrow> instant \<Rightarrow> duration \<Rightarrow> nat \<Rightarrow> (instant \<times> ('x, 'c) event) list" where
  "pings c t period n = map (\<lambda>k. (t + Suc k * period, EvClient c (NextPacket (V3 V3PingRequest)))) [0..<n]"

lemma ping_step:
  assumes "s_broker s = None" and "all_ok w" and "t \<le> now"
  shows "\<exists>w'. session_step C (t, s, w) (now, EvClient c (NextPacket (V3 V3PingRequest)))
      (now, s\<lparr>s_client := c, s_last_activity := now\<rparr>, w') \<and> all_ok w' \<and> broker_log w' = broker_log w"
proof -
  obtain w1 where w1: "client_send (V3 V3PingResponse) w = (Inr (), w1)" "all_ok w1"
    using safe_writes(1) assms(2) unfolding safe_def by blast
  with assms emitsD(2) [OF emits_writes(1) w1(1)] show ?thesis
    by (intro exI [of _ w1]) (simp add: session_step_iff enabled_def forward_step_def outage_phase_def
        outage_client_def service_outage_packet_def is_client_ack_def io_bind_def io_then_def)
qed

lemma pings_Suc: "pings c t period (Suc n) =
    pings c t period n @ [(t + Suc n * period, EvClient c (NextPacket (V3 V3PingRequest)))]"
  by (simp add: pings_def)

text \<open>
  C32. A talkative client postpones reconnection. The backoff sleep is begun anew by every
  iteration, so while the session waits out a delay of \<open>d\<close>, a client that sends a PINGREQ
  every \<open>p < d\<close> keeps the retry branch disabled for as long as it likes: after \<open>n\<close> such
  packets the session still waits for the same delay, and at no instant up to the next packet
  can a connection attempt start.
\<close>

theorem backoff_starvation:
  fixes C :: "('x, 'c) rmqtt"
  assumes "s_broker s = None" and "s_step s = Backoff d" and "period < d" and "all_ok w"
  shows "\<exists>s' w'. run (session_step C) (t, s, w) (pings c t period n) (t + n * period, s', w') \<and>
    s_broker s' = None \<and> s_step s' = Backoff d \<and> broker_log w' = broker_log w \<and>
    (\<forall>now b. now \<le> t + Suc n * period \<longrightarrow> 
      \<not> enabled (t + n * period) now (EvWait b :: ('x, 'c) event) s')"
proof -
  have "\<exists>s' w'. run (session_step C) (t, s, w) (pings c t period n) (t + n * period, s', w') \<and>
    s_broker s' = None \<and> s_step s' = Backoff d \<and> broker_log w' = broker_log w \<and> all_ok w'"
  proof (induction n)
    case 0
    with assms show ?case by (auto simp: pings_def intro: run_nil)
  next
    case (Suc n)
    then obtain s1 w1 where
      1: "run (session_step C) (t, s, w) (pings c t period n) (t + n * period, s1, w1)"
      "s_broker s1 = None" "s_step s1 = Backoff d" "broker_log w1 = broker_log w" "all_ok w1" by blast
    obtain w2 where 2: "session_step C (t + n * period, s1, w1)
        (t + Suc n * period, EvClient c (NextPacket (V3 V3PingRequest)))
        (t + Suc n * period, s1\<lparr>s_client := c, s_last_activity := t + Suc n * period\<rparr>, w2)"
      "all_ok w2" "broker_log w2 = broker_log w1"
      using ping_step [OF 1(2,5), of "t + n * period" "t + Suc n * period"] by auto
    from run_snoc [OF 1(1) 2(1)] 1(2-4) 2(2,3) show ?case
      by (intro exI [of _ "s1\<lparr>s_client := c, s_last_activity := t + Suc n * period\<rparr>"] exI [of _ w2])
        (simp add: pings_Suc)
  qed
  with assms(3) show ?thesis by (fastforce simp: enabled_def)
qed

theorem backoff_starvation_witness:
  "\<exists>s' w'. run (session_step sample_rmqtt)
      (1, sample_lost\<lparr>s_step := Backoff 100000000\<rparr>, sample_world)
      (pings (sample_framed 5 []) 1 50000000 40) (1 + 40 * 50000000, s', w') \<and>
    s_broker s' = None \<and> broker_log w' = broker_log sample_world \<and>
    \<not> enabled (1 + 40 * 50000000) 2050000000 (EvWait None :: (unit, unit) event) s'"
proof -
  let ?s = "sample_lost\<lparr>s_step := Backoff 100000000\<rparr>"
  have "s_broker ?s = None" "s_step ?s = Backoff 100000000" "50000000 < (100000000 :: nat)"
    by (simp_all add: sample_lost_def)
  from backoff_starvation [OF this sample_session_connected(2), of sample_rmqtt 1 "sample_framed 5 []" 40]
  obtain s' w' where "run (session_step sample_rmqtt) (1, ?s, sample_world)
      (pings (sample_framed 5 []) 1 50000000 40) (1 + 40 * 50000000, s', w')"
    "s_broker s' = None" "broker_log w' = broker_log sample_world"
    and *: "\<forall>now b. now \<le> 1 + Suc 40 * 50000000 \<longrightarrow> \<not> enabled (1 + 40 * 50000000) 
      now (EvWait b :: (unit, unit) event) s'"
    by blast
  moreover have "\<not> enabled (1 + 40 * 50000000) 2050000000 (EvWait None :: (unit, unit) event) s'"
    using *[rule_format, of 2050000000 None] by simp
  ultimately show ?thesis by blast
qed

theorem outage_withholds_acks_witness:
  "\<exists>s' w' w''. run (session_step sample_rmqtt) (1, sample_lost, sample_world)
      (pings (sample_framed 5 []) 1 50000000 1) (50000001, s', w') \<and>
    forward_step sample_rmqtt 600000000000 EvDeadline s' w' = (Inr None, w'') \<and>
    client_log w' = [SendPacket (V3 V3PingResponse)] \<and> broker_log w'' = []"
proof -
  let ?es = "pings (sample_framed 5 []) 1 50000000 1 :: (instant \<times> (unit, unit) event) list"
  have lost: "s_broker sample_lost = None" by (simp add: sample_lost_def)
  obtain w' where step: "session_step sample_rmqtt (1, sample_lost, sample_world)
      (50000001, EvClient (sample_framed 5 []) (NextPacket (V3 V3PingRequest)))
      (50000001, sample_lost\<lparr>s_client := sample_framed 5 [], s_last_activity := 50000001\<rparr>, w')"
    using ping_step [OF lost sample_session_connected(2), of 1 50000001 sample_rmqtt] by auto
  define s' where "s' = sample_lost\<lparr>s_client := sample_framed 5 [], s_last_activity := 50000001\<rparr>"
  have run: "run (session_step sample_rmqtt) (1, sample_lost, sample_world) ?es (50000001, s', w')"
    using step by (auto simp: pings_def s'_def intro: run_cons run_nil)
  have end_it: "forward_step sample_rmqtt 600000000000 EvDeadline s' w' = (Inr None, w')"
    by (simp add: s'_def forward_step_def outage_phase_def deadline_branch_def close_for_keepalive_def
        sample_lost_def sample_session_def sample_hs_def)
  have "session_inv sample_lost"
    by (simp add: session_inv_def sample_lost_def sample_session_def window_inv_def table_ok_def
        entry_ok_def)
  from outage_withholds_acks [OF sample_headers this lost run _ _ _ _ end_it] run end_it show ?thesis
    by (auto simp: pings_def event_ok_def packet_ok_def sample_encode_raw is_reconnect_def
        local_answer_def sample_world_def)
qed

section \<open>Keepalive\<close>

lemma activity_step:
  assumes "session_step C (t, s, w) (now, ev) (t', s', w')" and "session_inv s"
  shows "t \<le> now \<and> now \<le> t' \<and>
    s_last_activity s' = (case ev of EvClient c (NextPacket p) \<Rightarrow> now | _ \<Rightarrow> s_last_activity s)"
proof -
  from assms(1) have st: "forward_step C now ev s w = (Inr (Some s'), w')" "enabled t now ev s"
    and "now \<le> t'" by (simp_all add: session_step_iff)
  moreover have "window_inv (s_windows s)" using assms(2) by (simp add: session_inv_def)
  with st have "s_last_activity s' = (case ev of EvClient c (NextPacket p) \<Rightarrow> now | _ \<Rightarrow> s_last_activity s)"
    by (cases rule: forward_cases) (auto simp: lose_broker_def reconnected_def outage_retry_def
        split: outage_step.splits)
  ultimately show ?thesis by (simp add: enabled_def)
qed

lemma activity_run:
  assumes "run (session_step C) c es c'" and "encode_headers C" and "session_inv (fst (snd c))"
    and "list_all (event_ok C) es"
  shows "(\<forall>(ta, ev) \<in> set es. ta \<le> fst c' \<and>
    (\<forall>k p. ev = EvClient k (NextPacket p) \<longrightarrow> ta \<le> s_last_activity (fst (snd c'))))"
  using assms
proof (induction rule: run.induct)
  case (run_nil c)
  then show ?case by simp
next
  case (run_snoc c es c' e c'')
  obtain t s w where c': "c' = (t, s, w)" by (cases c')
  obtain t' s' w' where c'': "c'' = (t', s', w')" by (cases c'')
  obtain now ev where e: "e = (now, ev)" by (cases e)
  have inv: "session_inv s"
    using loop.inv_run [OF run_snoc.hyps(1)] run_snoc.prems by (cases c) (simp add: c')
  from activity_step [OF run_snoc.hyps(2) [unfolded c' c'' e] inv] run_snoc.IH run_snoc.prems
  show ?case
    by (fastforce simp: c' c'' e split: event.splits next_result.splits)
qed

text \<open>
  C23. The keepalive timer spares a client that speaks. In any run, when the deadline branch
  can be picked, at least one and a half keep alives have passed since each packet the client
  has sent, however the packets were handled; a client that sends a packet within every keep
  alive is never disconnected for silence.
\<close>

theorem keepalive_spares_active_client:
  assumes "encode_headers C" and "session_inv s"
    and "run (session_step C) (t, s, w) es (t', s', w')" and "list_all (event_ok C) es"
    and "(ta, EvClient k (NextPacket p)) \<in> set es" and "enabled t' now EvDeadline s'"
    and "hs_keep_alive (s_hs s') \<noteq> 0"
  shows "2 * (now - ta) \<ge> 3 * secs (unat (hs_keep_alive (s_hs s'))) \<and> ta \<le> now"
proof -
  have "ta \<le> s_last_activity s'"
    using activity_run [OF assms(3,1) _ assms(4)] assms(2,5) by fastforce
  with assms(6,7) show ?thesis
    by (auto simp: enabled_def client_deadline_def secs_def)
qed

theorem keepalive_spares_active_client_witness:
  "\<exists>w'. run (session_step sample_rmqtt) (0, sample_session, sample_failing) sample_events
     (2, sample_buffering, w') \<and> enabled 2 450000000002 EvDeadline sample_buffering \<and>
   2 * (450000000002 - 2) \<ge> 3 * secs 300"
proof -
  obtain w' where run: "run (session_step sample_rmqtt) (0, sample_session, sample_failing)
      sample_events (2, sample_buffering, w')"
    using sample_run by blast
  have hs: "hs_keep_alive (s_hs sample_buffering) = 300"
    by (simp add: sample_buffering_def sample_lost_def sample_session_def sample_hs_def)
  have en: "enabled 2 450000000002 EvDeadline sample_buffering"
    by (simp add: enabled_def hs client_deadline_def secs_def)
      (simp add: sample_buffering_def)
  have mem: "(2, EvClient (sample_framed 5 []) (NextPacket (sample_publish ExactlyOnce 9)))
      \<in> set sample_events"
    by (simp add: sample_events_def)
  from keepalive_spares_active_client [OF sample_headers sample_session_inv run sample_events_ok
      mem en] run en show ?thesis by (auto simp: hs)
qed

lemma relay_keeps_hs:
  assumes "run (session_step C) c es c'" and "encode_headers C" and "session_inv (fst (snd c))"
    and "list_all (event_ok C) es" and "list_all is_relay es"
  shows "s_hs (fst (snd c')) = s_hs (fst (snd c)) \<and>
    s_last_activity (fst (snd c')) = fold client_spoke es (s_last_activity (fst (snd c)))"
  using assms
proof (induction rule: run.induct)
  case (run_nil c)
  then show ?case by simp
next
  case (run_snoc c es c' e c'')
  obtain t s w where c': "c' = (t, s, w)" by (cases c')
  obtain t' s' w' where c'': "c'' = (t', s', w')" by (cases c'')
  obtain now ev where e: "e = (now, ev)" by (cases e)
  have inv: "session_inv s"
    using loop.inv_run [OF run_snoc.hyps(1)] run_snoc.prems by (cases c) (simp add: c')
  note step = run_snoc.hyps(2) [unfolded c' c'' e]
  from step have st: "forward_step C now ev s w = (Inr (Some s'), w')" "enabled t now ev s"
    by (simp_all add: session_step_iff)
  moreover have "window_inv (s_windows s)" using inv by (simp add: session_inv_def)
  ultimately have "s_hs s' = s_hs s"
    by (cases rule: forward_cases) (use run_snoc.prems e in \<open>auto simp: is_relay_def lose_broker_def\<close>)
  with activity_step [OF step inv] run_snoc.IH run_snoc.prems show ?case
    by (simp add: c' c'' e client_spoke_eq split: event.splits next_result.splits)
qed

text \<open>
  C19. Relaying makes progress. While no write fails, the broker does not disconnect and the
  client keeps to its (nonzero) keep alive, a sequence of packets that arrive in time has exactly one
  outcome: the session is still connected and all of it has reached the peers. Before none of
  the packets can the keepalive deadline or the retry branch be picked, so nothing but a freeze
  or the closing of the control channel could come between them.
\<close>

theorem connected_relay_progress:
  fixes C :: "('x, 'c) rmqtt" and s :: "'c session"
  assumes "encode_headers C" and "session_inv s" and "s_broker s \<noteq> None" and "all_ok w"
    and "list_all (event_ok C) es" and "list_all smooth es" and "sorted (t # map fst es)"
    and "hs_keep_alive (s_hs s) \<noteq> 0"
    and "prompt (unat (hs_keep_alive (s_hs s))) (s_last_activity s) es"
  shows "(\<exists>s' w'. s_broker s' \<noteq> None \<and>
      broker_log w' = broker_log w @ concat (map (to_broker \<circ> snd) es) \<and>
      client_log w' = client_log w @ concat (map (to_client \<circ> snd) es) \<and>
      (\<exists>t'. run (session_step C) (t, s, w) es (t', s', w')) \<and>
      (\<forall>c. run (session_step C) (t, s, w) es c \<longrightarrow> snd c = (s', w'))) \<and>
    (\<forall>es1 e es2 t1 s1 w1 now (b :: 'c framed option). es = es1 @ e # es2 \<and>
      run (session_step C) (t, s, w) es1 (t1, s1, w1) \<and> now \<le> fst e \<longrightarrow>
      \<not> enabled t1 now (EvDeadline :: ('x, 'c) event) s1 \<and>
      \<not> enabled t1 now (EvWait b :: ('x, 'c) event) s1)"
proof -
  have relay: "list_all is_relay es"
    using assms(6) by (rule list.pred_mono_strong)
      (auto simp: smooth_def is_relay_def split: option.splits)
  obtain t' s' w' where run: "run (session_step C) (t, s, w) es (t', s', w')" "s_broker s' \<noteq> None"
    using smooth_run [OF assms(1,5,6,7,2,3,4)] by blast
  have logs: "broker_log w' = broker_log w @ concat (map (to_broker \<circ> snd) es)"
    "client_log w' = client_log w @ concat (map (to_client \<circ> snd) es)"
    using relay_run [OF run(1) assms(1) _ assms(5) relay] assms(2) run(2) by auto
  have "snd c = (s', w')" if "run (session_step C) (t, s, w) es c" for c
    using run_deterministic [OF that run(1)] by simp
  moreover have "\<not> enabled t1 now (EvDeadline :: ('x, 'c) event) s1 \<and>
      \<not> enabled t1 now (EvWait b :: ('x, 'c) event) s1"
    if es: "es = es1 @ e # es2" and r1: "run (session_step C) (t, s, w) es1 (t1, s1, w1)"
      and now: "now \<le> fst e" for es1 e es2 t1 s1 w1 now and b :: "'c framed option"
  proof -
    obtain t2 s2 w2 where "run (session_step C) (t, s, w) es1 (t2, s2, w2)" "s_broker s2 \<noteq> None"
      using smooth_run [OF assms(1), of es1 t s w] assms(2-7) es by (auto simp: sorted_append)
    with run_deterministic [OF r1] have "s_broker s1 \<noteq> None" by fastforce
    moreover have "s_hs s1 = s_hs s" "s_last_activity s1 = fold client_spoke es1 (s_last_activity s)"
      using relay_keeps_hs [OF r1 assms(1)] assms(2,5) relay es by simp_all
    then have "\<not> enabled t1 now (EvDeadline :: ('x, 'c) event) s1"
      using prompt_at [of _ _ es1 e es2] assms(8,9) now
      by (fastforce simp: enabled_def client_deadline_def secs_def es)
    ultimately show ?thesis by (simp add: enabled_def)
  qed
  ultimately show ?thesis using run logs by blast
qed

theorem connected_relay_progress_witness:
  "\<exists>t' s' w'. run (session_step sample_rmqtt) (0, sample_session, sample_world) sample_talk (t', s', w') \<and>
    s_broker s' \<noteq> None \<and> length (broker_log w') = 2"
proof -
  have "hs_keep_alive (s_hs sample_session) \<noteq> 0"
    "prompt (unat (hs_keep_alive (s_hs sample_session))) (s_last_activity sample_session) sample_talk"
    by (simp_all add: sample_session_def sample_hs_def sample_talk_def secs_def)
  from connected_relay_progress [OF sample_headers sample_session_inv sample_session_connected
      sample_talk_ok(1,2,4) this]
  obtain t' s' w' where "run (session_step sample_rmqtt) (0, sample_session, sample_world)
      sample_talk (t', s', w')" "s_broker s' \<noteq> None"
    "broker_log w' = broker_log sample_world @ concat (map (to_broker \<circ> snd) sample_talk)" by blast
  then show ?thesis
    by (intro exI [of _ t'] exI [of _ s'] exI [of _ w'])
      (simp add: sample_talk_def sample_world_def)
qed

section \<open>Freezing\<close>

text \<open>The frozen session a session hands to the coordinator.\<close>

definition own_frozen :: "'c session \<Rightarrow> frozen_session" where
  "own_frozen s = freeze_snapshot (s_id s) (s_client s) (s_broker s) (s_hs s) (s_windows s)
     (s_subscriptions s) (s_buffer s)"

lemma freeze_rolled_back:
  "forward_step C now (EvFreeze (ResumedWith (own_frozen s))) s w = (Inr (Some s), w)"
proof -
  have "s\<lparr>s_client := (s_client s)\<lparr>fr_read_buf := fr_read_buf (s_client s)\<rparr>,
      s_broker := map_option (\<lambda>b. b\<lparr>fr_read_buf := fr_read_buf b\<rparr>) (s_broker s)\<rparr> = s"
    by (cases "s_broker s") simp_all
  then show ?thesis
    by (cases "s_broker s")
      (auto simp: forward_step_def connected_phase_def outage_phase_def freeze_branch_def
        handle_freeze_def restore_parts_def Let_def freeze_snapshot_def own_frozen_def)
qed

text \<open>
  C16. A rolled-back freeze is invisible. In either phase, a session whose coordinator has gone
  away, or which is resumed with the frozen session it handed over, continues exactly as it
  was, unread bytes included, with nothing written to either side; a session whose resume
  channel is dropped ends silently.
\<close>

theorem freeze_rollback_identity:
  "forward_step C now (EvFreeze coord) s w =
     (case coord of
        ReplyRefused \<Rightarrow> (Inr (Some s), w)
      | ResumedWith f \<Rightarrow>
          if f = own_frozen s then (Inr (Some s), w)
          else (Inr (Some (s\<lparr>
            s_client := (s_client s)\<lparr>fr_read_buf := ss_client_buf (fz_snapshot f)\<rparr>,
            s_broker := map_option (\<lambda>b. b\<lparr>fr_read_buf := ss_broker_buf (fz_snapshot f)\<rparr>) (s_broker s)\<rparr>)), w)
      | ResumeDropped \<Rightarrow> (Inr None, w))"
proof -
  have eq: "forward_step C now (EvFreeze coord) s = freeze_branch coord s"
    by (simp add: forward_step_def connected_phase_def outage_phase_def)
  have same: "s\<lparr>s_client := (s_client s)\<lparr>fr_read_buf := fr_read_buf (s_client s)\<rparr>,
      s_broker := map_option (\<lambda>b. b\<lparr>fr_read_buf := fr_read_buf b\<rparr>) (s_broker s)\<rparr> = s"
    by (cases "s_broker s") simp_all
  have own: "ss_client_buf (fz_snapshot (own_frozen s)) = fr_read_buf (s_client s)"
    "ss_broker_buf (fz_snapshot (own_frozen s)) =
       (case s_broker s of Some b \<Rightarrow> fr_read_buf b | None \<Rightarrow> [])"
    by (simp_all add: own_frozen_def freeze_snapshot_def)
  show ?thesis
    unfolding eq
    by (cases coord; cases "s_broker s")
      (use same own in \<open>auto simp: freeze_branch_def handle_freeze_def restore_parts_def Let_def
        end_session_def freeze_snapshot_def own_frozen_def\<close>)
qed

section \<open>Starting and adopting a session\<close>

text \<open>
  The handshake of a session can be recovered from its snapshot up to the keep alive, which a
  broker may have overridden.
\<close>

definition recoverable :: "('x, 'c) rmqtt \<Rightarrow> handshake_state \<Rightarrow> bool" where
  "recoverable C hs \<longleftrightarrow> (\<exists>ka. from_snapshot_version C (version_byte hs) (hs_connect_raw hs) =
     Inr (hs\<lparr>hs_keep_alive := ka\<rparr>))"

lemma recoverable_keep_alive [simp]:
  "recoverable C (hs\<lparr>hs_keep_alive := n\<rparr>) \<longleftrightarrow> recoverable C hs"
  by (simp add: recoverable_def version_byte_def)

lemma recoverable_step:
  assumes "session_step C (t, s, w) e (t', s', w')" and "session_inv s" and "recoverable C (s_hs s)"
  shows "recoverable C (s_hs s')"
proof -
  obtain now ev where e: "e = (now, ev)" by (cases e)
  from assms(1) have "forward_step C now ev s w = (Inr (Some s'), w')" "enabled t now ev s"
    by (simp_all add: session_step_iff e)
  moreover have "window_inv (s_windows s)" using assms(2) by (simp add: session_inv_def)
  ultimately show ?thesis
    by (cases rule: forward_cases) (use assms(3) in \<open>auto simp: lose_broker_def reconnected_def
        outage_retry_def split: outage_step.splits\<close>)
qed

interpretation keeps_handshake: invariant_system
  "session_step C" "event_ok C"
  "\<lambda>(t, s, w). session_inv s \<and> encode_headers C \<and> recoverable C (s_hs s)" for C
proof
  fix c e c'
  assume "(\<lambda>(t, s, w). session_inv s \<and> encode_headers C \<and> recoverable C (s_hs s)) c"
    "event_ok C e" "session_step C c e c'"
  then show "(\<lambda>(t, s, w). session_inv s \<and> encode_headers C \<and> recoverable C (s_hs s)) c'"
    using loop.inv_step [of C c e c'] recoverable_step [of C] by (cases c; cases c') auto
qed

text \<open>A session that ends leaves the table of live sessions as it was before it started.\<close>

lemma registration_cleans_up:
  assumes "registry_ok r" and "register tx r = (i, r')"
  shows "rg_sessions (registration_drop i r') = rg_sessions r"
proof -
  have "i \<notin> fst ` set (rg_sessions r)" using rt.fresh [OF assms(1), of tx] assms(2) by simp
  then have "filter (\<lambda>e. fst e \<noteq> i) (rg_sessions r) = rg_sessions r"
    by (auto simp: filter_id_conv)
  with assms(2) show ?thesis
    by (auto simp: registration_drop_def unregister_def register_def Let_def)
qed

lemma server_keepalive_hs: "\<exists>n. server_keepalive ack hs = hs\<lparr>hs_keep_alive := n\<rparr>"
  by (auto simp: server_keepalive_def split: packet_splits option.splits
      intro: exI [of _ "hs_keep_alive hs"])

text \<open>
  What a session is when \<open>run_session\<close> enters the loop.
\<close>

lemma run_session_Inr:
  assumes "run_session C next1 next2 fd connect now tx r w = (Inr (s, r'), w')"
  shows "\<exists>client hs b ack. handshake C next1 next2 fd = Inr (client, hs) \<and> connect = Some b \<and>
    broker_next w = NextPacket ack # broker_next w' \<and>
    broker_log w' = broker_log w @ [WriteRaw (hs_connect_raw hs)] \<and>
    client_log w' = client_log w @ [SendPacket ack] \<and>
    (s, r') = start_loop tx r client b (server_keepalive ack hs) now"
proof -
  from assms obtain client hs b w1 w2 ans w3 where
    hs: "handshake C next1 next2 fd = Inr (client, hs)" and b: "connect = Some b"
    and e1: "broker_write_all (hs_connect_raw hs) w = (Inr (), w1)"
    and e2: "broker_flush w1 = (Inr (), w2)"
    and e3: "broker_read w2 = (Inr ans, w3)"
    and rest: "(case ans of NextErr e \<Rightarrow> io_lift (Inl (invalid_data e))
      | NextNone \<Rightarrow> io_lift (Inl (IoError ConnectionAborted ''broker closed during handshake''))
      | NextPacket ack \<Rightarrow> io_then (client_send ack)
          (io_return (start_loop tx r client b (server_keepalive ack hs) now))) w3 = (Inr (s, r'), w')"
    by (auto simp: run_session_def io_bind_eq_Inr io_then_eq_Inr)
  from rest obtain ack where ack: "ans = NextPacket ack" by (cases ans) simp_all
  with rest have e4: "client_send ack w3 = (Inr (), w')"
    and s: "(s, r') = start_loop tx r client b (server_keepalive ack hs) now"
    by (auto simp: io_then_eq_Inr)
  have "client_log w3 = client_log w2 \<and> broker_log w3 = broker_log w2 \<and>
      broker_next w2 = NextPacket ack # broker_next w3"
    using e3 ack by (auto simp: broker_read_def split: list.splits)
  with emitsD [OF emits_writes(4) e1] emitsD [OF emits_writes(6) e2] emitsD [OF emits_writes(1) e4]
    hs b s show ?thesis by (intro exI [of _ client] exI [of _ hs] exI [of _ b] exI [of _ ack]) simp
qed

lemma start_loop_state:
  assumes "(s, r') = start_loop tx r client b hs now" and "registry_ok r"
  shows "session_inv s \<and> s_broker s = Some b \<and> s_hs s = hs \<and>
    covers (Map.empty, Map.empty) (s_buffer s) (s_windows s) \<and>
    s_id s \<notin> fst ` set (rg_sessions r) \<and> s_id s \<in> fst ` set (rg_sessions r')"
proof -
  obtain i r1 where reg: "register tx r = (i, r1)" by (cases "register tx r")
  have "i \<notin> fst ` set (rg_sessions r)" "i \<in> fst ` set (rg_sessions r1)"
    using rt.fresh [OF assms(2), of tx] rt.reg_live [of tx r] by (simp_all add: reg)
  with assms(1) window_inv_new show ?thesis
    by (simp add: start_loop_def reg session_inv_def covers_def windows_new_def)
qed

lemma run_session_state:
  assumes "redecodes C" and "run_session C next1 next2 fd connect now tx r w = (Inr (s, r'), w')"
    and "registry_ok r"
  shows "broker_log w' = broker_log w @ [WriteRaw (hs_connect_raw (s_hs s))] \<and>
    (\<exists>ack. client_log w' = client_log w @ [SendPacket ack] \<and>
      broker_next w = NextPacket ack # broker_next w') \<and>
    s_id s \<notin> fst ` set (rg_sessions r) \<and> s_id s \<in> fst ` set (rg_sessions r') \<and>
    session_inv s \<and> recoverable C (s_hs s) \<and> s_broker s \<noteq> None \<and>
    covers (Map.empty, Map.empty) (s_buffer s) (s_windows s)"
proof -
  from run_session_Inr [OF assms(2)] obtain client hs b ack where
    hs: "handshake C next1 next2 fd = Inr (client, hs)"
    and logs: "broker_next w = NextPacket ack # broker_next w'"
      "broker_log w' = broker_log w @ [WriteRaw (hs_connect_raw hs)]"
      "client_log w' = client_log w @ [SendPacket ack]"
    and s: "(s, r') = start_loop tx r client b (server_keepalive ack hs) now"
    by blast
  note st = start_loop_state [OF s assms(3)]
  obtain n where n: "s_hs s = hs\<lparr>hs_keep_alive := n\<rparr>"
    using server_keepalive_hs [of ack hs] st by auto
  have "recoverable C hs"
    unfolding recoverable_def
    using handshake_recovers [OF assms(1) hs] by (intro exI [of _ "hs_keep_alive hs"]) simp
  then have "recoverable C (s_hs s)" "hs_connect_raw (s_hs s) = hs_connect_raw hs"
    by (simp_all add: n)
  with st logs show ?thesis by simp
qed

lemma server_keepalive_eq:
  "server_keepalive ack hs = hs\<lparr>hs_keep_alive := connack_keep_alive ack (hs_keep_alive hs)\<rparr>"
  by (auto simp: server_keepalive_def split: packet_splits option.splits)


lemma sample_run_session:
  "\<exists>s r' w'. run_session sample_rmqtt (\<lambda>fr. (fr, NextPacket (Version MQTT3)))
      (\<lambda>fr. (fr, NextPacket sample_hello)) 5 (Some (sample_framed 6 [])) 0 () registry_new
      sample_reconnect = (Inr (s, r'), w') \<and> s_hs s = sample_hs"
  by (simp add: run_session_def handshake_def sample_hello_def sample_rmqtt_def sample_encode_def
      sample_connect_def keep_alive_of_def io_bind_def io_then_def sample_reconnect_def
      sample_world_def wire_ops broker_do_def client_do_def script_head_def broker_read_def
      start_loop_def register_def registry_new_def server_keepalive_def sample_hs_def)


text \<open>The session that takes over a frozen one.\<close>

definition taken_over ::
  "('x, 'c) rmqtt \<Rightarrow> raw_fd \<Rightarrow> u64 \<Rightarrow> u16 \<Rightarrow> instant \<Rightarrow> 'c session \<Rightarrow> 'c session" where
  "taken_over C fd i ka now s = s\<lparr>
     s_id := i,
     s_client := \<lparr>fr_io = fd, fr_codec = codec_for C (hs_version (s_hs s)),
       fr_read_buf = fr_read_buf (s_client s)\<rparr>,
     s_broker := None,
     s_hs := (s_hs s)\<lparr>hs_keep_alive := ka\<rparr>,
     s_leftover := (case s_broker s of Some b \<Rightarrow> fr_read_buf b | None \<Rightarrow> []),
     s_backoff := BROKER_RETRY_INITIAL, s_step := Connect, s_last_activity := now\<rparr>"

lemma adopt_taken_over:
  assumes "session_inv s"
    and "from_snapshot_version C (version_byte (s_hs s)) (hs_connect_raw (s_hs s)) =
      Inr ((s_hs s)\<lparr>hs_keep_alive := ka\<rparr>)"
  shows "adopt_session C fd (fz_snapshot (own_frozen s)) True now tx r =
    (let (i, r') = register tx r in Inr (taken_over C fd i ka now s, r'))"
proof -
  have "from_snapshot (snapshot (s_windows s)) = s_windows s"
    using assms(1) by (simp add: session_inv_def from_snapshot_snapshot)
  moreover have "\<lparr>ob_entries = ob_entries (s_buffer s),
      ob_bytes = sum_list (map (length \<circ> bp_raw) (ob_entries (s_buffer s)))\<rparr> = s_buffer s"
    using assms(1) by (simp add: session_inv_def buffer_inv_def)
  ultimately show ?thesis
    using assms(2) by (simp add: adopt_session_def own_frozen_def freeze_snapshot_def taken_over_def
        Let_def split: prod.splits)
qed

lemma adopt_frozen:
  assumes "session_inv s" and "recoverable C (s_hs s)"
  shows "\<exists>ka. adopt_session C fd (fz_snapshot (own_frozen s)) True now tx r =
    (let (i, r') = register tx r in Inr (s\<lparr>
       s_id := i,
       s_client := \<lparr>fr_io = fd, fr_codec = codec_for C (hs_version (s_hs s)),
         fr_read_buf = fr_read_buf (s_client s)\<rparr>,
       s_broker := None,
       s_hs := (s_hs s)\<lparr>hs_keep_alive := ka\<rparr>,
       s_leftover := (case s_broker s of Some b \<Rightarrow> fr_read_buf b | None \<Rightarrow> []),
       s_backoff := BROKER_RETRY_INITIAL, s_step := Connect, s_last_activity := now\<rparr>, r'))"
proof -
  obtain ka where "from_snapshot_version C (version_byte (s_hs s)) (hs_connect_raw (s_hs s)) =
      Inr ((s_hs s)\<lparr>hs_keep_alive := ka\<rparr>)"
    using assms(2) by (auto simp: recoverable_def)
  from adopt_taken_over [OF assms(1) this, of fd now tx r] show ?thesis
    by (intro exI [of _ ka]) (simp add: taken_over_def)
qed

text \<open>
  C15. A migrated session takes up where it was frozen, but for two losses. Adopting the snapshot
  of a well-formed session succeeds. The adopted session has the windows, the subscriptions, the
  outage buffer, the protocol version and the CONNECT of the frozen one and the unread bytes of
  its client connection. Its keep alive is the one the stored CONNECT decodes to, not one the
  broker has assigned since; its leftover is what was unread of a live broker connection, and
  nothing if the session was frozen in an outage. It is well-formed, registered, waits to
  reconnect at once, its activity starts at the adoption, and it covers every ledger the frozen
  session covered.
\<close>

theorem migration_resumes_session:
  fixes C :: "('x, 'c) rmqtt" and s :: "'c session"
  assumes "session_inv s"
    and "from_snapshot_version C (version_byte (s_hs s)) (hs_connect_raw (s_hs s)) =
      Inr ((s_hs s)\<lparr>hs_keep_alive := ka\<rparr>)"
  shows "\<exists>i s' r'. adopt_session C fd (fz_snapshot (own_frozen s)) True now tx r = Inr (s', r') \<and>
    s' = s\<lparr>
      s_id := i,
      s_client := \<lparr>fr_io = fd, fr_codec = codec_for C (hs_version (s_hs s)),
        fr_read_buf = fr_read_buf (s_client s)\<rparr>,
      s_broker := None,
      s_hs := (s_hs s)\<lparr>hs_keep_alive := ka\<rparr>,
      s_leftover := (case s_broker s of Some b \<Rightarrow> fr_read_buf b | None \<Rightarrow> []),
      s_backoff := BROKER_RETRY_INITIAL, s_step := Connect, s_last_activity := now\<rparr> \<and>
    session_inv s' \<and> i \<in> fst ` set (rg_sessions r') \<and>
    (\<forall>l. covers l (s_buffer s) (s_windows s) = covers l (s_buffer s') (s_windows s'))"
proof -
  obtain i r1 where reg: "register tx r = (i, r1)" by (cases "register tx r")
  have "i \<in> fst ` set (rg_sessions r1)" using rt.reg_live [of tx r] by (simp add: reg)
  moreover have "session_inv (taken_over C fd i ka now s)"
    using assms(1) by (simp add: session_inv_def taken_over_def)
  ultimately show ?thesis
    using adopt_taken_over [OF assms, of fd now tx r]
    by (intro exI [of _ i] exI [of _ "taken_over C fd i ka now s"] exI [of _ r1])
      (simp add: reg taken_over_def)
qed

theorem migration_resumes_session_witness:
  "\<exists>s' r'. adopt_session sample_rmqtt 9 (fz_snapshot (own_frozen sample_buffering)) True 4 ()
      registry_new = Inr (s', r') \<and> s_windows s' = s_windows sample_buffering \<and>
    s_buffer s' = s_buffer sample_buffering"
proof -
  have "from_snapshot_version sample_rmqtt (version_byte (s_hs sample_buffering))
      (hs_connect_raw (s_hs sample_buffering)) =
      Inr ((s_hs sample_buffering)\<lparr>hs_keep_alive := word_cat (1 :: u8) (44 :: u8)\<rparr>)"
    by (simp add: sample_buffering_def sample_lost_def sample_session_def
        from_snapshot_version_def version_byte_def sample_hs_def sample_rmqtt_def sample_decode_def
        codec_for_def keep_alive_of_def nth_Cons')
  from migration_resumes_session [OF sample_buffering_inv this, of 9 4 "()" registry_new]
  show ?thesis by auto
qed

text \<open>
  During an outage the broker bytes that were set aside for delivery are not part of the
  snapshot: the adopted session starts with none, whatever the frozen one had.
\<close>

lemma outage_leftover_not_migrated:
  fixes C :: "('x, 'c) rmqtt" and s :: "'c session"
  assumes "session_inv s" and "recoverable C (s_hs s)" and "s_broker s = None"
    and "adopt_session C fd (fz_snapshot (own_frozen s)) True now tx r = Inr (s', r')"
  shows "s_leftover s' = []"
  using adopt_frozen [OF assms(1,2), of fd now tx r] assms(3,4)
  by (cases "register tx r") auto

section \<open>Observations\<close>

text \<open>
  A SUBSCRIBE whose forwarding fails is not buffered: the session goes on in the outage phase
  with the subscription recorded for the re-SUBSCRIBE, whose SUBACK is not forwarded, and the
  unread bytes of the broker connection are not set aside either.
\<close>

lemma failed_subscribe_forgotten:
  assumes "s_broker s = Some b" and "\<not> script_head (broker_ok w)"
  shows "\<exists>w'. forward_step C now (EvClient c (NextPacket (V3 (V3Subscribe i fs)))) s w =
    (Inr (Some (s\<lparr>s_client := c, s_last_activity := now, s_broker := None,
       s_subscriptions := sub_track C (V3 (V3Subscribe i fs)) (s_subscriptions s)\<rparr>)), w')"
  using assms
  by (simp add: forward_step_def connected_phase_def connected_client_def local_pong_def io_then_def
      io_bind_def track_c2b_def forward_to_broker_def broker_send_def broker_do_def)

text \<open>
  A broker that accepts the connection and closes it before its CONNACK ends the session,
  although the outage phase would retry a refused connection for ever.
\<close>

lemma aborted_replay_ends_session:
  assumes "s_broker s = None" and "all_ok w" and "broker_next w = []"
    and "force_session_resumption (hs_connect_raw (s_hs s)) = Inr raw"
  shows "\<exists>w'. forward_step C now (EvWait (Some b)) s w =
    (Inl (IoError ConnectionAborted ''broker closed during CONNECT replay''), w')"
proof -
  obtain w1 where w1: "broker_write_all raw w = (Inr (), w1)" "all_ok w1" "broker_next w1 = []"
    using safe_step [OF safe_writes(4) emits_writes(4) assms(2)] assms(3) by metis
  obtain w2 where w2: "broker_flush w1 = (Inr (), w2)" "broker_next w2 = []"
    using safe_step [OF safe_writes(6) emits_writes(6) w1(2)] w1(3) by metis
  show ?thesis
    using assms(1,4) w1 w2
    by (simp add: forward_step_def outage_phase_def outage_connected_def establish_broker_def
        io_then_def io_bind_def await_connack_def broker_read_def)
qed

end
