(* ===== verification/Migrate.thy ===== *)
theory Migrate
  imports Registry Event_System
begin

text \<open>
  The migration channel (\<open>migrate.rs\<close>): the parent sends one datagram per frozen session with
  the client's descriptor and waits for an acknowledgement after each, then sends an end
  marker; the child receives until the marker. Each side is a program counter with one step
  per system call; the two run concurrently over a pair of FIFO datagram queues. Every
  receive may time out and every send may fail, as the scheduler of the model chooses. The
  JSON encoding belongs to \<open>serde_json\<close> and is a parameter.
\<close>

section \<open>Data\<close>

record serde =
  to_vec :: "session_snapshot \<Rightarrow> string + bytes"
  from_slice :: "bytes \<Rightarrow> string + session_snapshot"

definition END_MARKER :: bytes where
  "END_MARKER = [84, 68, 45, 69, 78, 68]"

definition ACK :: bytes where
  "ACK = [6]"

definition IO_TIMEOUT :: duration where
  "IO_TIMEOUT = 10 * 1000000000"

text \<open>The two socket options that bound every receive and send.\<close>

record sock_opts =
  so_receive_timeout :: "duration option"
  so_send_timeout :: "duration option"

definition set_timeouts :: "bool \<Rightarrow> bool \<Rightarrow> sock_opts \<Rightarrow> sock_opts res" where
  "set_timeouts ok1 ok2 opts =
     (if \<not> ok1 then Inl (IoError OtherIo ''setsockopt'')
      else let opts1 = opts\<lparr>so_receive_timeout := Some IO_TIMEOUT\<rparr>
           in if \<not> ok2 then Inl (IoError OtherIo ''setsockopt'')
              else Inr (opts1\<lparr>so_send_timeout := Some IO_TIMEOUT\<rparr>))"

definition parent_channel :: "bool \<Rightarrow> bool \<Rightarrow> sock_opts \<Rightarrow> sock_opts res" where
  "parent_channel = set_timeouts"

definition child_channel :: "bool \<Rightarrow> bool \<Rightarrow> sock_opts \<Rightarrow> sock_opts res" where
  "child_channel = set_timeouts"

type_synonym datagram = "bytes \<times> raw_fd option"

text \<open>Where each side is: about to send the rest, waiting for the acknowledgement, done.\<close>

datatype parent_pc =
    PSend "frozen_session list"
  | PAck "frozen_session list"
  | PDone "unit res"

datatype child_pc =
    CRecv
  | CAck
  | CDone "(session_snapshot \<times> raw_fd) list res"

record handoff =
  ho_parent :: parent_pc
  ho_sent :: nat
  ho_child :: child_pc
  ho_sessions :: "(session_snapshot \<times> raw_fd) list"
  ho_to_child :: "datagram list"
  ho_to_parent :: "datagram list"

text \<open>Whether the next system call of a side succeeds.\<close>

datatype choice = Proceed | Failing

section \<open>Operations\<close>

definition send_with_fd :: "bytes \<Rightarrow> raw_fd \<Rightarrow> datagram list \<Rightarrow> datagram list" where
  "send_with_fd payload fd queue = queue @ [(payload, Some fd)]"

text \<open>A datagram longer than the receive buffer is cut off.\<close>

fun recv_with_fd :: "datagram list \<Rightarrow> (datagram \<times> datagram list) option" where
  "recv_with_fd [] = None"
| "recv_with_fd ((payload, fd) # queue) = Some ((take (1024 * 1024) payload, fd), queue)"

text \<open>
  One system call of \<open>send_sessions\<close>. \<open>None\<close>: the call blocks, or the function has returned.
\<close>

definition send_sessions_step :: "serde \<Rightarrow> choice \<Rightarrow> handoff \<Rightarrow> handoff option" where
  "send_sessions_step J ch h =
     (case ho_parent h of
        PSend [] \<Rightarrow>
          (case ch of
             Failing \<Rightarrow> Some (h\<lparr>ho_parent := PDone (Inl (IoError OtherIo ''send''))\<rparr>)
           | Proceed \<Rightarrow> Some (h\<lparr>ho_parent := PDone (Inr ()),
                               ho_to_child := ho_to_child h @ [(END_MARKER, None)]\<rparr>))
      | PSend (s # ss) \<Rightarrow>
          (case to_vec J (fz_snapshot s) of
             Inl e \<Rightarrow> Some (h\<lparr>ho_parent := PDone (Inl (invalid_data e))\<rparr>)
           | Inr payload \<Rightarrow>
               (case ch of
                  Failing \<Rightarrow> Some (h\<lparr>ho_parent := PDone (Inl (IoError OtherIo ''sendmsg''))\<rparr>)
                | Proceed \<Rightarrow> Some (h\<lparr>ho_parent := PAck ss,
                    ho_to_child := send_with_fd payload (fz_client_fd s) (ho_to_child h)\<rparr>)))
      | PAck ss \<Rightarrow>
          (case ch of
             Failing \<Rightarrow> Some (h\<lparr>ho_parent := PDone (Inl (IoError OtherIo ''recvmsg''))\<rparr>)
           | Proceed \<Rightarrow>
               (case recv_with_fd (ho_to_parent h) of
                  None \<Rightarrow> None
                | Some ((ack, _), queue) \<Rightarrow>
                    if ack \<noteq> ACK
                    then Some (h\<lparr>ho_parent := PDone (Inl (IoError InvalidData ''bad handoff ack'')),
                               ho_to_parent := queue\<rparr>)
                    else Some (h\<lparr>ho_parent := PSend ss, ho_sent := ho_sent h + 1,
                               ho_to_parent := queue\<rparr>)))
      | PDone r \<Rightarrow> None)"

text \<open>One system call of \<open>recv_sessions\<close>.\<close>

definition recv_sessions_step :: "serde \<Rightarrow> choice \<Rightarrow> handoff \<Rightarrow> handoff option" where
  "recv_sessions_step J ch h =
     (case ho_child h of
        CRecv \<Rightarrow>
          (case ch of
             Failing \<Rightarrow> Some (h\<lparr>ho_child := CDone (Inl (IoError OtherIo ''recvmsg''))\<rparr>)
           | Proceed \<Rightarrow>
               (case recv_with_fd (ho_to_child h) of
                  None \<Rightarrow> None
                | Some ((payload, fd), queue) \<Rightarrow>
                    if payload = END_MARKER
                    then Some (h\<lparr>ho_child := CDone (Inr (ho_sessions h)), ho_to_child := queue\<rparr>)
                    else (case from_slice J payload of
                       Inl e \<Rightarrow> Some (h\<lparr>ho_child := CDone (Inl (invalid_data e)), ho_to_child := queue\<rparr>)
                     | Inr snap \<Rightarrow>
                         (case fd of
                            None \<Rightarrow> Some (h\<lparr>ho_child :=
                              CDone (Inl (IoError InvalidData ''snapshot without client fd'')),
                              ho_to_child := queue\<rparr>)
                          | Some f \<Rightarrow> Some (h\<lparr>ho_child := CAck,
                              ho_sessions := ho_sessions h @ [(snap, f)], ho_to_child := queue\<rparr>)))))
      | CAck \<Rightarrow>
          (case ch of
             Failing \<Rightarrow> Some (h\<lparr>ho_child := CDone (Inl (IoError OtherIo ''send''))\<rparr>)
           | Proceed \<Rightarrow> Some (h\<lparr>ho_child := CRecv, ho_to_parent := ho_to_parent h @ [(ACK, None)]\<rparr>))
      | CDone r \<Rightarrow> None)"

definition handoff_start :: "frozen_session list \<Rightarrow> handoff" where
  "handoff_start frozen = \<lparr>ho_parent = PSend frozen, ho_sent = 0, ho_child = CRecv,
     ho_sessions = [], ho_to_child = [], ho_to_parent = []\<rparr>"

datatype side = Parent | Child

inductive handoff_step :: "serde \<Rightarrow> handoff \<Rightarrow> side \<times> choice \<Rightarrow> handoff \<Rightarrow> bool" for J where
  parent_moves: "send_sessions_step J ch h = Some h' \<Longrightarrow> handoff_step J h (Parent, ch) h'"
| child_moves: "recv_sessions_step J ch h = Some h' \<Longrightarrow> handoff_step J h (Child, ch) h'"

inductive_cases handoff_stepE: "handoff_step J h e h'"

section \<open>What the channel relies on\<close>

text \<open>
  A serialised snapshot parses back to itself and is not the end marker (it is a JSON object),
  and the snapshots at hand serialise into the receive buffer.
\<close>

definition serde_laws :: "serde \<Rightarrow> bool" where
  "serde_laws J \<longleftrightarrow> (\<forall>s p. to_vec J s = Inr p \<longrightarrow> from_slice J p = Inr s \<and> p \<noteq> END_MARKER)"

definition fits :: "serde \<Rightarrow> frozen_session \<Rightarrow> bool" where
  "fits J f \<longleftrightarrow> (\<exists>p. to_vec J (fz_snapshot f) = Inr p \<and> length p \<le> 1024 * 1024)"

definition handed :: "frozen_session \<Rightarrow> session_snapshot \<times> raw_fd" where
  "handed f = (fz_snapshot f, fz_client_fd f)"

section \<open>The invariant\<close>

text \<open>
  The two sides alternate. Between the parent's send and its acknowledgement exactly one
  message is under way; a side that has failed does nothing more.
\<close>

definition in_flight :: "serde \<Rightarrow> frozen_session list \<Rightarrow> handoff \<Rightarrow> bool" where
  "in_flight J frozen h \<longleftrightarrow>
     (\<exists>f p. ho_sent h < length frozen \<and> f = frozen ! ho_sent h \<and> to_vec J (fz_snapshot f) = Inr p \<and>
        ho_to_child h = [(p, Some (fz_client_fd f))] \<and> ho_to_parent h = [] \<and> ho_child h \<noteq> CAck \<and>
        ho_sessions h = map handed (take (ho_sent h) frozen))
     \<or> ho_sent h < length frozen \<and> ho_to_child h = [] \<and>
        ho_sessions h = map handed (take (Suc (ho_sent h)) frozen) \<and>
        (ho_child h = CAck \<and> ho_to_parent h = [] \<or>
         ho_child h \<noteq> CAck \<and> (ho_to_parent h = [(ACK, None)] \<or>
           (\<exists>e. ho_child h = CDone (Inl e)) \<and> ho_to_parent h = []))"

definition quiet :: "frozen_session list \<Rightarrow> handoff \<Rightarrow> bool" where
  "quiet frozen h \<longleftrightarrow> ho_to_child h = [] \<and> ho_to_parent h = [] \<and> ho_child h \<noteq> CAck \<and>
     ho_sent h \<le> length frozen \<and> ho_sessions h = map handed (take (ho_sent h) frozen)"

definition handoff_inv :: "serde \<Rightarrow> frozen_session list \<Rightarrow> handoff \<Rightarrow> bool" where
  "handoff_inv J frozen h \<longleftrightarrow>
     (case ho_parent h of
        PSend ss \<Rightarrow> ss = drop (ho_sent h) frozen \<and> quiet frozen h \<and> (\<forall>r. ho_child h \<noteq> CDone (Inr r))
      | PAck ss \<Rightarrow> ss = drop (Suc (ho_sent h)) frozen \<and> in_flight J frozen h \<and>
          (\<forall>r. ho_child h \<noteq> CDone (Inr r))
      | PDone (Inl e) \<Rightarrow> (quiet frozen h \<or> in_flight J frozen h) \<and> (\<forall>r. ho_child h \<noteq> CDone (Inr r))
      | PDone (Inr u) \<Rightarrow> ho_sent h = length frozen \<and> ho_to_parent h = [] \<and> ho_child h \<noteq> CAck \<and>
          ho_sessions h = map handed frozen \<and>
          (ho_to_child h = [(END_MARKER, None)] \<and> (\<forall>r. ho_child h \<noteq> CDone (Inr r)) \<or>
           ho_to_child h = [] \<and> ho_child h = CDone (Inr (map handed frozen))))"

lemma handoff_inv_start: "handoff_inv J frozen (handoff_start frozen)"
  by (simp add: handoff_inv_def handoff_start_def quiet_def)

lemma send_step_inv:
  assumes "handoff_inv J frozen h" and "send_sessions_step J ch h = Some h'"
  shows "handoff_inv J frozen h'"
proof (cases "ho_parent h")
  case (PSend ss)
  then have ss: "ss = drop (ho_sent h) frozen" and q: "quiet frozen h"
    and nr: "\<forall>r. ho_child h \<noteq> CDone (Inr r)" using assms(1) by (simp_all add: handoff_inv_def)
  show ?thesis
  proof (cases ss)
    case Nil
    with ss have "length frozen \<le> ho_sent h" by simp
    with q have "ho_sent h = length frozen" by (simp add: quiet_def)
    with assms(2) PSend Nil q nr show ?thesis
      by (auto simp: send_sessions_step_def handoff_inv_def quiet_def split: choice.splits)
  next
    case (Cons s ss')
    then have s: "ho_sent h < length frozen" "frozen ! ho_sent h = s" "ss' = drop (Suc (ho_sent h)) frozen"
      using ss by (metis drop_all linorder_not_le list.distinct(1),
          metis nth_via_drop, metis drop_Suc drop_tl list.sel(3))
    with assms(2) PSend Cons q nr show ?thesis
      by (auto simp: send_sessions_step_def handoff_inv_def quiet_def in_flight_def send_with_fd_def
          split: choice.splits sum.splits)
  qed
next
  case (PAck ss)
  then have ss: "ss = drop (Suc (ho_sent h)) frozen" and fl: "in_flight J frozen h"
    and nr: "\<forall>r. ho_child h \<noteq> CDone (Inr r)" using assms(1) by (simp_all add: handoff_inv_def)
  show ?thesis
  proof (cases ch)
    case Failing
    with assms(2) PAck fl nr show ?thesis
      by (auto simp: send_sessions_step_def handoff_inv_def in_flight_def)
  next
    case Proceed
    with assms(2) PAck fl have "ho_to_parent h = [(ACK, None)]"
      by (auto simp: send_sessions_step_def in_flight_def)
    with assms(2) PAck Proceed fl nr ss show ?thesis
      by (auto simp: send_sessions_step_def handoff_inv_def in_flight_def quiet_def ACK_def)
  qed
qed (use assms in \<open>auto simp: send_sessions_step_def\<close>)

text \<open>The child's receive of the message under way.\<close>

lemma recv_snapshot:
  assumes "serde_laws J" and "to_vec J snap = Inr p" and "length p \<le> 1024 * 1024"
    and "ho_child h = CRecv" and "ho_to_child h = [(p, Some fd)]"
  shows "recv_sessions_step J Proceed h = Some (h\<lparr>ho_child := CAck,
    ho_sessions := ho_sessions h @ [(snap, fd)], ho_to_child := []\<rparr>)"
  using assms by (auto simp: recv_sessions_step_def serde_laws_def)

lemma recv_end:
  assumes "ho_child h = CRecv" and "ho_to_child h = [(END_MARKER, None)]"
  shows "recv_sessions_step J Proceed h =
    Some (h\<lparr>ho_child := CDone (Inr (ho_sessions h)), ho_to_child := []\<rparr>)"
  using assms by (simp add: recv_sessions_step_def END_MARKER_def)

lemma take_Suc_handed:
  "n < length frozen \<Longrightarrow> map handed (take n frozen) @ [(fz_snapshot (frozen ! n), fz_client_fd (frozen ! n))]
    = map handed (take (Suc n) frozen)"
  by (simp add: take_Suc_conv_app_nth handed_def)

lemma in_flight_recv:
  assumes "serde_laws J" and "list_all (fits J) frozen" and "in_flight J frozen h"
    and "recv_sessions_step J ch h = Some h'" and "\<forall>r. ho_child h \<noteq> CDone (Inr r)"
  shows "in_flight J frozen h' \<and> (\<forall>r. ho_child h' \<noteq> CDone (Inr r)) \<and>
    ho_parent h' = ho_parent h \<and> ho_sent h' = ho_sent h"
proof (cases "ho_child h = CRecv \<and> ch = Proceed")
  case True
  with assms(3,4) obtain p where n: "ho_sent h < length frozen"
    and p: "to_vec J (fz_snapshot (frozen ! ho_sent h)) = Inr p"
    and q: "ho_to_child h = [(p, Some (fz_client_fd (frozen ! ho_sent h)))]" "ho_to_parent h = []"
    and rec: "ho_sessions h = map handed (take (ho_sent h) frozen)"
    by (auto simp: in_flight_def recv_sessions_step_def)
  have "fits J (frozen ! ho_sent h)" using assms(2) n by (simp add: list_all_length)
  then have "length p \<le> 1024 * 1024" using p by (auto simp: fits_def)
  from recv_snapshot [OF assms(1) p this _ q(1)] True assms(4)
  have "h' = h\<lparr>ho_child := CAck, ho_sessions := map handed (take (Suc (ho_sent h)) frozen),
      ho_to_child := []\<rparr>"
    by (simp add: rec take_Suc_handed [OF n])
  with n q show ?thesis by (simp add: in_flight_def)
next
  case False
  with assms(3-5) show ?thesis
    by (cases "ho_child h"; cases ch) (auto simp: in_flight_def recv_sessions_step_def)
qed

lemma recv_step_inv:
  assumes "serde_laws J" and "list_all (fits J) frozen"
    and "handoff_inv J frozen h" and "recv_sessions_step J ch h = Some h'"
  shows "handoff_inv J frozen h'"
proof -
  note flight = in_flight_recv [OF assms(1,2) _ assms(4)]
  have quiet: "quiet frozen h' \<and> (\<forall>r. ho_child h' \<noteq> CDone (Inr r)) \<and>
      ho_parent h' = ho_parent h \<and> ho_sent h' = ho_sent h" if "quiet frozen h"
    using that assms(4)
    by (cases "ho_child h"; cases ch) (auto simp: quiet_def recv_sessions_step_def)
  show ?thesis
  proof (cases "ho_parent h")
    case (PSend ss)
    with assms(3) quiet show ?thesis by (auto simp: handoff_inv_def)
  next
    case (PAck ss)
    with assms(3) flight show ?thesis by (auto simp: handoff_inv_def)
  next
    case (PDone r)
    show ?thesis
    proof (cases r)
      case (Inl e)
      with PDone assms(3) quiet flight show ?thesis by (auto simp: handoff_inv_def)
    next
      case (Inr u)
      with PDone assms(3,4) recv_end [of h J] show ?thesis
        by (cases "ho_child h"; cases ch) (auto simp: handoff_inv_def recv_sessions_step_def)
    qed
  qed
qed

interpretation channel: invariant_system
  "handoff_step J" "\<lambda>e. True"
  "\<lambda>h. serde_laws J \<and> list_all (fits J) frozen \<and> handoff_inv J frozen h" for J frozen
  by unfold_locales (auto elim!: handoff_stepE intro: send_step_inv recv_step_inv)

lemma handoff_reachable_inv:
  assumes "serde_laws J" and "list_all (fits J) frozen"
    and "run (handoff_step J) (handoff_start frozen) es h"
  shows "handoff_inv J frozen h"
  using channel.inv_run [OF assms(3), of frozen] assms(1,2) by (simp add: handoff_inv_start list_all_iff)

text \<open>A run without failures, from any point between two sessions.\<close>

definition between :: "frozen_session list \<Rightarrow> frozen_session list \<Rightarrow> handoff" where
  "between sent rest = \<lparr>ho_parent = PSend rest, ho_sent = length sent, ho_child = CRecv,
     ho_sessions = map handed sent, ho_to_child = [], ho_to_parent = []\<rparr>"

definition completed :: "frozen_session list \<Rightarrow> handoff" where
  "completed frozen = \<lparr>ho_parent = PDone (Inr ()), ho_sent = length frozen,
     ho_child = CDone (Inr (map handed frozen)), ho_sessions = map handed frozen,
     ho_to_child = [], ho_to_parent = []\<rparr>"

definition smooth_schedule :: "nat \<Rightarrow> (side \<times> choice) list" where
  "smooth_schedule n =
     concat (replicate n [(Parent, Proceed), (Child, Proceed), (Child, Proceed), (Parent, Proceed)])
     @ [(Parent, Proceed), (Child, Proceed)]"

lemma round_trip:
  assumes "serde_laws J" and "fits J f"
  shows "run (handoff_step J) (between sent (f # rest))
    [(Parent, Proceed), (Child, Proceed), (Child, Proceed), (Parent, Proceed)] (between (sent @ [f]) rest)"
proof -
  obtain p where p: "to_vec J (fz_snapshot f) = Inr p" "length p \<le> 1024 * 1024"
    using assms(2) by (auto simp: fits_def)
  let ?h1 = "(between sent (f # rest))\<lparr>ho_parent := PAck rest, ho_to_child := [(p, Some (fz_client_fd f))]\<rparr>"
  let ?h2 = "?h1\<lparr>ho_child := CAck, ho_sessions := map handed (sent @ [f]), ho_to_child := []\<rparr>"
  let ?h3 = "?h2\<lparr>ho_child := CRecv, ho_to_parent := [(ACK, None)]\<rparr>"
  have 1: "handoff_step J (between sent (f # rest)) (Parent, Proceed) ?h1"
    by (rule parent_moves) (simp add: send_sessions_step_def between_def p send_with_fd_def)
  have 2: "handoff_step J ?h1 (Child, Proceed) ?h2"
    by (rule child_moves, subst recv_snapshot [OF assms(1) p]) (simp_all add: between_def handed_def)
  have 3: "handoff_step J ?h2 (Child, Proceed) ?h3"
    by (rule child_moves) (simp add: recv_sessions_step_def between_def)
  have 4: "handoff_step J ?h3 (Parent, Proceed) (between (sent @ [f]) rest)"
    by (rule parent_moves) (simp add: send_sessions_step_def between_def ACK_def)
  show ?thesis using 1 2 3 4 by (blast intro: run_cons run_nil)
qed

lemma last_round:
  "run (handoff_step J) (between frozen []) [(Parent, Proceed), (Child, Proceed)] (completed frozen)"
proof -
  let ?h1 = "(between frozen [])\<lparr>ho_parent := PDone (Inr ()), ho_to_child := [(END_MARKER, None)]\<rparr>"
  have 1: "handoff_step J (between frozen []) (Parent, Proceed) ?h1"
    by (rule parent_moves) (simp add: send_sessions_step_def between_def)
  have 2: "handoff_step J ?h1 (Child, Proceed) (completed frozen)"
    by (rule child_moves, subst recv_end) (simp_all add: between_def completed_def)
  show ?thesis using 1 2 by (blast intro: run_cons run_nil)
qed

lemma smooth_handoff:
  "serde_laws J \<Longrightarrow> list_all (fits J) rest \<Longrightarrow>
   run (handoff_step J) (between sent rest) (smooth_schedule (length rest)) (completed (sent @ rest))"
proof (induction rest arbitrary: sent)
  case Nil
  then show ?case using last_round by (simp add: smooth_schedule_def)
next
  case (Cons f rest)
  have "run (handoff_step J) (between (sent @ [f]) rest) (smooth_schedule (length rest))
      (completed (sent @ f # rest))"
    using Cons.IH [of "sent @ [f]"] Cons.prems by simp
  from run_append [OF round_trip this] Cons.prems show ?case by (simp add: smooth_schedule_def)
qed

lemma done_stable:
  "run (handoff_step J) h es h' \<Longrightarrow> ho_parent h = PDone r \<Longrightarrow> ho_parent h' = PDone r"
proof (induction rule: run.induct)
  case (run_snoc h es h' e h'')
  then show ?case
    by (auto elim!: handoff_stepE simp: send_sessions_step_def recv_sessions_step_def
        split: child_pc.splits choice.splits option.splits prod.splits if_splits sum.splits)
qed simp

section \<open>Properties\<close>

text \<open>
  C29. The handoff never mixes sessions up. Whatever fails on either side, in every reachable
  state the child has received, in order, exactly the sessions the parent counts as sent, or
  one more whose acknowledgement is under way, each with its own snapshot and client
  descriptor; if the parent's function succeeds it has counted all of them, and if the child's
  succeeds it returns all of them and the parent's has succeeded too.
\<close>

theorem handoff_delivers_prefix:
  assumes "serde_laws J" and "list_all (fits J) frozen"
    and "run (handoff_step J) (handoff_start frozen) es h"
  shows "ho_sent h \<le> length frozen \<and>
    (ho_sessions h = map handed (take (ho_sent h) frozen) \<or>
     ho_sent h < length frozen \<and> ho_sessions h = map handed (take (Suc (ho_sent h)) frozen)) \<and>
    (ho_parent h = PDone (Inr ()) \<longrightarrow> ho_sent h = length frozen) \<and>
    (\<forall>r. ho_child h = CDone (Inr r) \<longrightarrow> r = map handed frozen \<and> ho_parent h = PDone (Inr ()))"
  using handoff_reachable_inv [OF assms]
  by (auto simp: handoff_inv_def quiet_def in_flight_def split: parent_pc.splits sum.splits)

text \<open>
  C30. The handoff completes: when no system call fails and the snapshots fit, four steps per
  session and two more bring both functions to success, the child with every session, in
  order, each with its snapshot and descriptor. In particular the alternation never deadlocks.
\<close>

theorem handoff_completes:
  assumes "serde_laws J" and "list_all (fits J) frozen"
  shows "\<exists>h. run (handoff_step J) (handoff_start frozen) (smooth_schedule (length frozen)) h \<and>
    ho_parent h = PDone (Inr ()) \<and> ho_sent h = length frozen \<and>
    ho_child h = CDone (Inr (map handed frozen))"
  using smooth_handoff [OF assms, of "[]"]
  by (auto simp: handoff_start_def between_def completed_def)

text \<open>
  C31. A failed handoff transfers nothing. Once the parent's function has returned an error,
  however many sessions it counted as sent, the child's function never succeeds: the end
  marker is never sent, so the sessions the child has already received are dropped with its
  error and no session is ever served by both generations.
\<close>

theorem failed_handoff_adopts_nothing:
  assumes "serde_laws J" and "list_all (fits J) frozen"
    and "run (handoff_step J) (handoff_start frozen) es h" and "ho_parent h = PDone (Inl e)"
    and "run (handoff_step J) h es' h'"
  shows "ho_child h' \<noteq> CDone (Inr r)"
proof -
  have "ho_parent h' = PDone (Inl e)" using done_stable [OF assms(5,4)] .
  moreover have "handoff_inv J frozen h'"
    using handoff_reachable_inv [OF assms(1,2) run_append [OF assms(3,5)]] .
  ultimately show ?thesis by (simp add: handoff_inv_def)
qed

text \<open>
  A snapshot whose encoding does not fit the receive buffer arrives cut off; when the cut text
  does not parse, the child gives up, with the sessions received before.
\<close>

lemma oversized_snapshot_aborts:
  assumes "ho_child h = CRecv" and "ho_to_child h = (p, fd) # queue"
    and "length p > 1024 * 1024" and "from_slice J (take (1024 * 1024) p) = Inl e"
  shows "recv_sessions_step J Proceed h =
    Some (h\<lparr>ho_child := CDone (Inl (invalid_data e)), ho_to_child := queue\<rparr>)"
proof -
  have "take (1024 * 1024) p \<noteq> END_MARKER"
    using assms(3) by (auto simp: END_MARKER_def dest!: arg_cong [where f = length])
  with assms show ?thesis by (simp add: recv_sessions_step_def)
qed

section \<open>Sample handoff\<close>

text \<open>An encoding that knows the snapshots of one session at a time.\<close>

definition sample_snapshot :: "u8 \<Rightarrow> session_snapshot" where
  "sample_snapshot v = \<lparr>ss_version = v, ss_connect_raw = [], ss_client_buf = [], ss_broker_buf = [],
     ss_windows = [], ss_subscriptions = [], ss_buffered = []\<rparr>"

definition sample_serde :: serde where
  "sample_serde = \<lparr>
     to_vec = (\<lambda>s. if s = sample_snapshot (ss_version s) then Inr [123, ss_version s] else Inl ''unsupported''),
     from_slice = (\<lambda>p. case p of [b, v] \<Rightarrow> Inr (sample_snapshot v) | _ \<Rightarrow> Inl ''syntax'')\<rparr>"

definition sample_batch :: "frozen_session list" where
  "sample_batch = [\<lparr>fz_id = 0, fz_snapshot = sample_snapshot 4, fz_client_fd = 7\<rparr>,
     \<lparr>fz_id = 1, fz_snapshot = sample_snapshot 5, fz_client_fd = 8\<rparr>]"

lemma sample_serde_laws: "serde_laws sample_serde"
  by (auto simp: serde_laws_def sample_serde_def END_MARKER_def split: if_splits)

lemma sample_batch_fits: "list_all (fits sample_serde) sample_batch"
  by (simp add: sample_batch_def fits_def sample_serde_def sample_snapshot_def)

theorem handoff_completes_witness:
  "\<exists>h. run (handoff_step sample_serde) (handoff_start sample_batch)
      (smooth_schedule (length sample_batch)) h \<and>
    ho_child h = CDone (Inr [(sample_snapshot 4, 7), (sample_snapshot 5, 8)])"
  using handoff_completes [OF sample_serde_laws sample_batch_fits]
  by (auto simp: sample_batch_def handed_def)

text \<open>The first session is acknowledged, then the parent's second send fails.\<close>

definition sample_broken :: handoff where
  "sample_broken = (between (take 1 sample_batch) (drop 1 sample_batch))\<lparr>
     ho_parent := PDone (Inl (IoError OtherIo ''sendmsg''))\<rparr>"

lemma sample_broken_run: "\<exists>es. run (handoff_step sample_serde) (handoff_start sample_batch) es sample_broken"
proof -
  have fst: "fits sample_serde (hd sample_batch)"
    using sample_batch_fits by (simp add: sample_batch_def)
  have start: "handoff_start sample_batch = between [] (hd sample_batch # tl sample_batch)"
    by (simp add: handoff_start_def between_def sample_batch_def)
  have mid: "between (take 1 sample_batch) (drop 1 sample_batch) =
      between ([] @ [hd sample_batch]) (tl sample_batch)"
    by (simp add: sample_batch_def)
  have "handoff_step sample_serde (between (take 1 sample_batch) (drop 1 sample_batch)) (Parent, Failing)
      sample_broken"
    by (rule parent_moves) (simp add: send_sessions_step_def sample_broken_def between_def
        sample_batch_def sample_serde_def sample_snapshot_def)
  with round_trip [OF sample_serde_laws fst, of "[]" "tl sample_batch"] show ?thesis
    unfolding start mid by (blast intro: run_snoc)
qed

theorem handoff_delivers_prefix_witness:
  "(\<exists>es. run (handoff_step sample_serde) (handoff_start sample_batch) es sample_broken) \<and>
   ho_sent sample_broken = 1 \<and> ho_sessions sample_broken = [(sample_snapshot 4, 7)]"
proof -
  obtain es where run: "run (handoff_step sample_serde) (handoff_start sample_batch) es sample_broken"
    using sample_broken_run by blast
  have "ho_sessions sample_broken = [(sample_snapshot 4, 7)]" "ho_sent sample_broken = 1"
    by (simp_all add: sample_broken_def between_def sample_batch_def handed_def)
  with handoff_delivers_prefix [OF sample_serde_laws sample_batch_fits run] run show ?thesis by blast
qed

theorem failed_handoff_adopts_nothing_witness:
  "\<exists>es h'. run (handoff_step sample_serde) (handoff_start sample_batch) es sample_broken \<and>
     run (handoff_step sample_serde) sample_broken [(Child, Failing)] h' \<and>
     ho_sessions h' = [(sample_snapshot 4, 7)] \<and>
     ho_child h' \<noteq> CDone (Inr [(sample_snapshot 4, 7)])"
proof -
  obtain es where run: "run (handoff_step sample_serde) (handoff_start sample_batch) es sample_broken"
    using sample_broken_run by blast
  let ?h' = "sample_broken\<lparr>ho_child := CDone (Inl (IoError OtherIo ''recvmsg''))\<rparr>"
  have err: "ho_parent sample_broken = PDone (Inl (IoError OtherIo ''sendmsg''))"
    and sess: "ho_sessions ?h' = [(sample_snapshot 4, 7)]"
    by (simp_all add: sample_broken_def between_def sample_batch_def handed_def)
  have "handoff_step sample_serde sample_broken (Child, Failing) ?h'"
    by (rule child_moves) (simp add: recv_sessions_step_def sample_broken_def between_def)
  then have run': "run (handoff_step sample_serde) sample_broken [(Child, Failing)] ?h'"
    by (blast intro: run_cons run_nil)
  from failed_handoff_adopts_nothing [OF sample_serde_laws sample_batch_fits run err run'] run run' sess
  show ?thesis by blast
qed

end
