(* ===== verification/Drain.thy ===== *)
theory Drain
  imports Prelude Event_System
begin

text \<open>
  Draining (\<open>DrainTracker\<close> and \<open>SessionGuard\<close> of \<open>server.rs\<close>): an atomic counter of live
  session guards, and a waiter that sleeps until it reaches zero or a timeout fires. A session
  holds a guard when the acceptor has spawned it; a session adopted from a previous process
  holds none, and the tracker knows nothing of it. The sessions and the waiter run on different threads, so every atomic access and every operation on the
  \<open>Notify\<close> is a step of its own: between the waiter's load of the counter and the creation of
  its \<open>notified()\<close> future, anything can happen. \<open>notify_waiters\<close> wakes the futures that exist
  when it is called and stores no permit for later ones.
\<close>

section \<open>Operations\<close>

record drain_tracker =
  dt_sessions :: u64
  dt_waiting :: bool

definition drain_new :: drain_tracker where
  "drain_new = \<lparr>dt_sessions = 0, dt_waiting = False\<rparr>"

definition drain_track :: "drain_tracker \<Rightarrow> drain_tracker" where
  "drain_track t = t\<lparr>dt_sessions := dt_sessions t + 1\<rparr>"

text \<open>
  The decrement of a dropped guard, and whether the guard has to notify; a guard whose tracker
  is gone does nothing.
\<close>

definition guard_drop :: "bool \<Rightarrow> drain_tracker \<Rightarrow> bool \<times> drain_tracker" where
  "guard_drop alive t =
     (if alive then (dt_sessions t = 1, t\<lparr>dt_sessions := dt_sessions t - 1\<rparr>) else (False, t))"

definition notify_waiters :: "drain_tracker \<Rightarrow> drain_tracker" where
  "notify_waiters t = t\<lparr>dt_waiting := False\<rparr>"

text \<open>
  \<open>wait_drained\<close>: about to load the counter, about to create the future, awaiting it,
  returned.
\<close>

datatype waiter = WLoad | WNotified | WAwait | WReturned bool

datatype drain_label = DTrack | DDrop | DNotify | DLoad | DNotified | DWake | DTimeout

text \<open>
  The tracker, the number of live guards, of guards that still have to notify, and the waiter.
\<close>

record drain_sys =
  ds_tracker :: drain_tracker
  ds_guards :: nat
  ds_notifying :: nat
  ds_waiter :: waiter

definition wait_drained_step :: "drain_label \<Rightarrow> drain_sys \<Rightarrow> drain_sys option" where
  "wait_drained_step l d =
     (case (l, ds_waiter d) of
        (DLoad, WLoad) \<Rightarrow>
          Some (d\<lparr>ds_waiter := if dt_sessions (ds_tracker d) = 0 then WReturned True else WNotified\<rparr>)
      | (DNotified, WNotified) \<Rightarrow>
          Some (d\<lparr>ds_tracker := (ds_tracker d)\<lparr>dt_waiting := True\<rparr>, ds_waiter := WAwait\<rparr>)
      | (DWake, WAwait) \<Rightarrow>
          (if dt_waiting (ds_tracker d) then None else Some (d\<lparr>ds_waiter := WLoad\<rparr>))
      | (DTimeout, WAwait) \<Rightarrow>
          Some (d\<lparr>ds_tracker := (ds_tracker d)\<lparr>dt_waiting := False\<rparr>, ds_waiter := WReturned False\<rparr>)
      | _ \<Rightarrow> None)"

definition is_returned :: "waiter \<Rightarrow> bool" where
  "is_returned w = (case w of WReturned b \<Rightarrow> True | _ \<Rightarrow> False)"

definition drain_step_fun :: "drain_label \<Rightarrow> drain_sys \<Rightarrow> drain_sys option" where
  "drain_step_fun l d =
     (case l of
        DTrack \<Rightarrow> Some (d\<lparr>ds_tracker := drain_track (ds_tracker d), ds_guards := ds_guards d + 1\<rparr>)
      | DDrop \<Rightarrow>
          (if ds_guards d = 0 then None
           else let (last, t) = guard_drop (\<not> is_returned (ds_waiter d)) (ds_tracker d)
                in Some (d\<lparr>ds_tracker := t, ds_guards := ds_guards d - 1,
                          ds_notifying := ds_notifying d + (if last then 1 else 0)\<rparr>))
      | DNotify \<Rightarrow>
          (if ds_notifying d = 0 then None
           else Some (d\<lparr>ds_tracker := notify_waiters (ds_tracker d), ds_notifying := ds_notifying d - 1\<rparr>))
      | _ \<Rightarrow> wait_drained_step l d)"

definition drain_step :: "drain_sys \<Rightarrow> drain_label \<Rightarrow> drain_sys \<Rightarrow> bool" where
  "drain_step d l d' \<longleftrightarrow> drain_step_fun l d = Some d'"

text \<open>A process with \<open>n\<close> live guards whose main task begins to wait.\<close>

definition draining :: "nat \<Rightarrow> drain_sys" where
  "draining n = \<lparr>ds_tracker = \<lparr>dt_sessions = of_nat n, dt_waiting = False\<rparr>, ds_guards = n,
     ds_notifying = 0, ds_waiter = WLoad\<rparr>"

section \<open>The invariant\<close>

text \<open>
  As long as the waiter has not returned the counter is the number of live guards, of which
  there are at most \<open>k\<close>, the number at the start and of those tracked since. The acceptor has
  been told to stop, but it may still be in the middle of an accept, so tracking is not excluded.
\<close>

definition drain_inv :: "nat \<Rightarrow> drain_sys \<Rightarrow> bool" where
  "drain_inv k d \<longleftrightarrow> ds_guards d \<le> k \<and>
     (\<not> is_returned (ds_waiter d) \<longrightarrow> dt_sessions (ds_tracker d) = of_nat (ds_guards d))"

definition tracked :: "drain_label list \<Rightarrow> nat" where
  "tracked ls = length (filter (\<lambda>l. l = DTrack) ls)"

lemma unat_of_guards: "n < 2 ^ 64 \<Longrightarrow> unat (of_nat n :: u64) = n"
  by (simp add: unat_of_nat take_bit_nat_eq_self)

lemma guards_zero: "n < 2 ^ 64 \<Longrightarrow> (of_nat n = (0 :: u64)) = (n = 0)"
  by (auto simp: unat_of_guards dest: arg_cong [where f = unat])

lemma drain_inv_step:
  assumes "drain_inv k d" and "drain_step d l d'"
  shows "drain_inv (k + tracked [l]) d'"
proof -
  have eq: "drain_step_fun l d = Some d'" using assms(2) by (simp add: drain_step_def)
  show ?thesis
  proof (cases l)
    case DDrop
    obtain m where "ds_guards d \<noteq> 0 \<Longrightarrow> ds_guards d = Suc m" by (cases "ds_guards d") simp_all
    with eq DDrop assms(1) show ?thesis
      by (auto simp: drain_step_fun_def drain_inv_def guard_drop_def split: if_splits)
  qed (use eq assms(1) in \<open>auto simp: drain_step_fun_def wait_drained_step_def drain_inv_def
      drain_track_def is_returned_def notify_waiters_def tracked_def split: waiter.splits if_splits\<close>)
qed

lemma drain_inv_run: "run drain_step c ls d \<Longrightarrow> c = draining n \<Longrightarrow> drain_inv (n + tracked ls) d"
proof (induction rule: run.induct)
  case (run_nil c)
  then show ?case by (simp add: drain_inv_def draining_def tracked_def)
next
  case (run_snoc c ls d l d')
  then have "drain_inv (n + tracked ls) d" by simp
  from drain_inv_step [OF this run_snoc.hyps(2)] show ?case
    by (cases "l = DTrack") (simp_all add: tracked_def)
qed

text \<open>Once no guard is left, only a track brings one back.\<close>

interpretation drained: invariant_system drain_step "\<lambda>l. l \<noteq> DTrack" "\<lambda>d. ds_guards d = 0"
proof
  fix d l d'
  assume "ds_guards d = 0" and "l \<noteq> DTrack" and "drain_step d l d'"
  then show "ds_guards d' = 0"
    by (cases l) (auto simp: drain_step_def drain_step_fun_def wait_drained_step_def
        split: waiter.splits if_splits)
qed

section \<open>Properties\<close>



text \<open>The drops of all the sessions while the waiter sleeps.\<close>

definition sleeping :: "nat \<Rightarrow> drain_sys" where
  "sleeping n = \<lparr>ds_tracker = \<lparr>dt_sessions = of_nat n, dt_waiting = True\<rparr>, ds_guards = n,
     ds_notifying = 0, ds_waiter = WAwait\<rparr>"

lemma guards_one: "n < 2 ^ 64 \<Longrightarrow> (of_nat n = (1 :: u64)) = (n = 1)"
  by (auto simp: unat_of_guards dest: arg_cong [where f = unat])

lemma drop_step:
  assumes "Suc n < 2 ^ 64"
  shows "drain_step (sleeping (Suc n)) DDrop ((sleeping n)\<lparr>ds_notifying := if n = 0 then 1 else 0\<rparr>)"
  using guards_one [OF assms]
  by (simp add: drain_step_def drain_step_fun_def sleeping_def is_returned_def guard_drop_def)

lemma drops_run:
  "Suc n < 2 ^ 64 \<Longrightarrow>
   run drain_step (sleeping (Suc n)) (replicate (Suc n) DDrop) ((sleeping 0)\<lparr>ds_notifying := 1\<rparr>)"
proof (induction n)
  case 0
  have "drain_step (sleeping (Suc 0)) DDrop ((sleeping 0)\<lparr>ds_notifying := 1\<rparr>)"
    using drop_step [of 0] by simp
  then show ?case by (auto intro: run_cons run_nil)
next
  case (Suc n)
  have "(sleeping (Suc n))\<lparr>ds_notifying := 0\<rparr> = sleeping (Suc n)" by (simp add: sleeping_def)
  then have "drain_step (sleeping (Suc (Suc n))) DDrop (sleeping (Suc n))"
    using drop_step [OF Suc.prems] by simp
  with Suc show ?case unfolding replicate_Suc [of "Suc n"] by (intro run_cons) simp_all
qed

text \<open>
  A sleeping waiter is woken by the last session: once the waiter's future exists, the
  drops of all the sessions, the notification by the last of them and the waiter's second look
  at the counter make \<open>wait_drained\<close> return true.
\<close>

theorem wait_drained_wakes:
  assumes "Suc n < 2 ^ 64"
  shows "\<exists>d. run drain_step (sleeping (Suc n)) (replicate (Suc n) DDrop @ [DNotify, DWake, DLoad]) d \<and>
    ds_waiter d = WReturned True \<and> ds_guards d = 0"
proof -
  let ?d1 = "(sleeping 0)\<lparr>ds_notifying := 1\<rparr>"
  let ?d2 = "(sleeping 0)\<lparr>ds_tracker := \<lparr>dt_sessions = 0, dt_waiting = False\<rparr>\<rparr>"
  have 1: "drain_step ?d1 DNotify ?d2"
    by (simp add: drain_step_def drain_step_fun_def sleeping_def notify_waiters_def)
  have 2: "drain_step ?d2 DWake (?d2\<lparr>ds_waiter := WLoad\<rparr>)"
    by (simp add: drain_step_def drain_step_fun_def sleeping_def wait_drained_step_def)
  have 3: "drain_step (?d2\<lparr>ds_waiter := WLoad\<rparr>) DLoad (?d2\<lparr>ds_waiter := WReturned True\<rparr>)"
    by (simp add: drain_step_def drain_step_fun_def sleeping_def wait_drained_step_def)
  have "run drain_step ?d1 [DNotify, DWake, DLoad] (?d2\<lparr>ds_waiter := WReturned True\<rparr>)"
    using 1 2 3 by (blast intro: run_cons run_nil)
  from run_append [OF drops_run [OF assms] this] show ?thesis
    by (intro exI [of _ "?d2\<lparr>ds_waiter := WReturned True\<rparr>"]) (simp add: sleeping_def)
qed

theorem wait_drained_wakes_witness:
  "\<exists>d. run drain_step (sleeping (Suc (Suc 0)))
      (replicate (Suc (Suc 0)) DDrop @ [DNotify, DWake, DLoad]) d \<and>
    ds_waiter d = WReturned True \<and> ds_guards d = 0"
  by (rule wait_drained_wakes) simp

text \<open>
  C34. A wakeup can be lost. The last session may drop its guard and notify after the waiter
  has loaded the counter and before it has created its future. Then no session is left, no
  notification is pending, and nothing but the timeout can make \<open>wait_drained\<close> return.
\<close>

theorem wait_drained_lost_wakeup:
  "\<exists>d. run drain_step (draining 1) [DLoad, DDrop, DNotify, DNotified] d \<and>
    ds_guards d = 0 \<and> ds_notifying d = 0 \<and> ds_waiter d = WAwait \<and>
    (\<forall>l d'. drain_step d l d' \<and> l \<noteq> DTrack \<longleftrightarrow>
      l = DTimeout \<and> d' = d\<lparr>ds_tracker := (ds_tracker d)\<lparr>dt_waiting := False\<rparr>, ds_waiter := WReturned False\<rparr>)"
proof -
  let ?d1 = "(draining 1)\<lparr>ds_waiter := WNotified\<rparr>"
  let ?d2 = "?d1\<lparr>ds_tracker := \<lparr>dt_sessions = 0, dt_waiting = False\<rparr>, ds_guards := 0, ds_notifying := 1\<rparr>"
  let ?d3 = "?d2\<lparr>ds_notifying := 0\<rparr>"
  let ?d4 = "?d3\<lparr>ds_tracker := \<lparr>dt_sessions = 0, dt_waiting = True\<rparr>, ds_waiter := WAwait\<rparr>"
  have 1: "drain_step (draining 1) DLoad ?d1"
    by (simp add: drain_step_def drain_step_fun_def draining_def wait_drained_step_def)
  have 2: "drain_step ?d1 DDrop ?d2"
    by (simp add: drain_step_def drain_step_fun_def draining_def guard_drop_def is_returned_def)
  have 3: "drain_step ?d2 DNotify ?d3"
    by (simp add: drain_step_def drain_step_fun_def draining_def notify_waiters_def)
  have 4: "drain_step ?d3 DNotified ?d4"
    by (simp add: drain_step_def drain_step_fun_def draining_def wait_drained_step_def)
  have "run drain_step (draining 1) [DLoad, DDrop, DNotify, DNotified] ?d4"
    using 1 2 3 4 by (blast intro: run_cons run_nil)
  moreover have "(drain_step ?d4 l d' \<and> l \<noteq> DTrack) = (l = DTimeout \<and>
      d' = ?d4\<lparr>ds_tracker := (ds_tracker ?d4)\<lparr>dt_waiting := False\<rparr>, ds_waiter := WReturned False\<rparr>)" for l d'
    by (cases l) (auto simp: drain_step_def drain_step_fun_def draining_def wait_drained_step_def)
  ultimately show ?thesis by (intro exI [of _ ?d4]) (simp add: draining_def)
qed

end
