(* ===== verification/Server.thy ===== *)
theory Server
  imports Drain Registry
begin

text \<open>
  The server's life cycle (\<open>server.rs\<close>), the in-process variants of its accept loop
  (\<open>lib.rs\<close>). The main loop reacts to signals: a stop ends it, an upgrade sheds in drain or
  in migrate mode. What the operating system, ecdysis and the child process answer is an
  argument; what the loop does to the sessions (resume messages, dropped resume channels), to
  the acceptor and to ecdysis is recorded in the state.
\<close>

section \<open>Accepting connections\<close>

datatype shed_mode = DrainMode | MigrateMode

text \<open>What \<open>accept\<close> yields: a connection, or an error.\<close>

datatype accepted = Accepted raw_fd | AcceptError

text \<open>
  The tracker, the sessions spawned with a guard, and the time spent sleeping after errors.
\<close>

record acceptor =
  ac_tracker :: drain_tracker
  ac_spawned :: "raw_fd list"
  ac_slept :: duration

definition ACCEPT_BACKOFF :: duration where
  "ACCEPT_BACKOFF = 100 * 1000000"

definition acceptor_step :: "accepted \<Rightarrow> acceptor \<Rightarrow> acceptor" where
  "acceptor_step r a =
     (case r of
        Accepted stream \<Rightarrow> a\<lparr>ac_tracker := drain_track (ac_tracker a), ac_spawned := ac_spawned a @ [stream]\<rparr>
      | AcceptError \<Rightarrow> a\<lparr>ac_slept := ac_slept a + ACCEPT_BACKOFF\<rparr>)"

definition spawn_acceptor :: "accepted list \<Rightarrow> acceptor \<Rightarrow> acceptor" where
  "spawn_acceptor rs a = fold acceptor_step rs a"

text \<open>
  \<open>serve\<close> returns the first accept error and never returns otherwise (\<open>None\<close>: it is still
  serving); the loop of \<open>Proxy::start\<close> ends at it. Both spawn the sessions accepted before.
\<close>

fun serve :: "accepted list \<Rightarrow> raw_fd list \<times> unit res option" where
  "serve [] = ([], None)"
| "serve (Accepted stream # rs) = (let (spawned, r) = serve rs in (stream # spawned, r))"
| "serve (AcceptError # rs) = ([], Some (Inl (IoError OtherIo ''accept'')))"

fun proxy_start :: "accepted list \<Rightarrow> raw_fd list" where
  "proxy_start [] = []"
| "proxy_start (Accepted stream # rs) = stream # proxy_start rs"
| "proxy_start (AcceptError # rs) = []"

definition proxy_freeze_all :: "(u64 \<Rightarrow> freeze_answer) \<Rightarrow> 'tx registry \<Rightarrow> freeze_batch" where
  "proxy_freeze_all ans registry = freeze_all ans (rg_sessions registry)"

section \<open>The main loop\<close>

datatype signal = SigUsr2 | SigTerm | SigInt

text \<open>
  How an upgrade goes: whether the blocking task is joined, whether ecdysis reports a ready
  child, the live sessions when the freeze locks the registry and how they answer it, and how
  the handoff ends after how many sessions.
\<close>

record 'tx upgrade_env =
  ue_joined :: bool
  ue_upgraded :: bool
  ue_senders :: "(u64 \<times> 'tx) list"
  ue_answers :: "u64 \<Rightarrow> freeze_answer"
  ue_handoff :: "nat \<times> unit res"

record server =
  sv_mode :: shed_mode
  sv_accepting :: bool
  sv_quit :: bool
  sv_resumed :: "(u64 \<times> frozen_session) list"
  sv_dropped :: "u64 list"

text \<open>What an iteration of the loop does next.\<close>

datatype flow = Again | BreakLoop | ReturnOk

definition upgrade_join :: err where
  "upgrade_join = IoError OtherIo ''upgrade join''"

definition end_batch :: "(u64 \<times> frozen_session) list \<times> u64 list \<Rightarrow> server \<Rightarrow> server" where
  "end_batch b s = s\<lparr>sv_resumed := sv_resumed s @ fst b, sv_dropped := sv_dropped s @ snd b\<rparr>"

definition shed_drain :: "'tx upgrade_env \<Rightarrow> server \<Rightarrow> flow res \<times> server" where
  "shed_drain env s =
     (if \<not> ue_joined env then (Inl upgrade_join, s)
      else if ue_upgraded env then (Inr BreakLoop, s\<lparr>sv_accepting := False, sv_quit := True\<rparr>)
      else (Inr Again, s))"

text \<open>
  A migrate shed stops the acceptor first and starts a new one only when the upgrade has failed:
  from the abort to the outcome, while sessions are frozen and the child starts, no connection is
  accepted. The outcome is computed from the state after the abort.
\<close>

definition abort_acceptor :: "server \<Rightarrow> server" where
  "abort_acceptor s = s\<lparr>sv_accepting := False\<rparr>"

text \<open>
  A batch that goes out of scope on the error path drops its resume channels, as \<open>finish\<close> does.
\<close>

definition shed_migrate :: "'tx upgrade_env \<Rightarrow> server \<Rightarrow> flow res \<times> server" where
  "shed_migrate env s =
     (let s1 = abort_acceptor s;
          batch = freeze_all (ue_answers env) (ue_senders env)
      in if \<not> ue_joined env then (Inl upgrade_join, end_batch (finish batch) s1)
         else if ue_upgraded env then
           (case ue_handoff env of
              (sent, Inr u) \<Rightarrow> (Inr ReturnOk, end_batch (finish batch) (s1\<lparr>sv_quit := True\<rparr>))
            | (sent, Inl e) \<Rightarrow> (Inr BreakLoop, end_batch (resume_skipping sent batch) s1))
         else (Inr Again, (end_batch (resume_all batch) s1)\<lparr>sv_accepting := True\<rparr>))"

definition on_signal :: "signal \<Rightarrow> 'tx upgrade_env \<Rightarrow> server \<Rightarrow> flow res \<times> server" where
  "on_signal sig env s =
     (case sig of
        SigUsr2 \<Rightarrow>
          (case sv_mode s of
             DrainMode \<Rightarrow> shed_drain env s
           | MigrateMode \<Rightarrow> shed_migrate env s)
      | SigTerm \<Rightarrow> (Inr BreakLoop, s)
      | SigInt \<Rightarrow> (Inr BreakLoop, s))"

text \<open>
  The loop over the signals that arrive; when they run out the process is still serving
  (\<open>None\<close>). After a break the acceptor is aborted, ecdysis told to quit, and the sessions are
  given \<open>drain_timeout\<close>: \<open>drained\<close> says whether they end in time.
\<close>

datatype run_result = ReturnedOk "bool option" | ReturnedErr err

fun run_loop ::
  "bool \<Rightarrow> (signal \<times> 'tx upgrade_env) list \<Rightarrow> server \<Rightarrow> run_result option \<times> server" where
  "run_loop drained [] s = (None, s)"
| "run_loop drained ((sig, env) # sigs) s =
     (case on_signal sig env s of
        (Inl e, s') \<Rightarrow> (Some (ReturnedErr e), s')
      | (Inr ReturnOk, s') \<Rightarrow> (Some (ReturnedOk None), s')
      | (Inr BreakLoop, s') \<Rightarrow>
          (Some (ReturnedOk (Some drained)), s'\<lparr>sv_accepting := False, sv_quit := True\<rparr>)
      | (Inr Again, s') \<Rightarrow> run_loop drained sigs s')"

text \<open>
  Setting up. The calls up to \<open>ready\<close> fail before anything is served. A child in migrate mode that
  inherited the channel then spawns the adoption of the previous generation's sessions, unless
  \<open>child_channel\<close> fails; then the acceptor is spawned, and the registration of the signals comes
  last, so \<open>run\<close> may return an error after the child has been reported ready and after sessions
  have been spawned.
\<close>

definition child_adopts :: "bool \<Rightarrow> shed_mode \<Rightarrow> bool \<Rightarrow> bool" where
  "child_adopts is_child mode from_parent \<longleftrightarrow> is_child \<and> mode = MigrateMode \<and> from_parent"

record prologue =
  pr_ready :: bool
  pr_adopting :: bool
  pr_accepting :: bool

text \<open>What the fallible calls answer: those up to \<open>ready\<close>, \<open>child_channel\<close>, the three signals.\<close>

record startup =
  su_setup :: "bool list"
  su_child_channel :: bool
  su_signals :: "bool list"

definition server_start ::
  "startup \<Rightarrow> bool \<Rightarrow> bool \<Rightarrow> shed_mode \<Rightarrow> prologue \<times> server res" where
  "server_start su is_child from_parent mode =
     (let adopts = child_adopts is_child mode from_parent;
          failed = Inl (IoError OtherIo ''startup'')
      in if \<not> list_all (\<lambda>ok. ok) (su_setup su)
         then (\<lparr>pr_ready = False, pr_adopting = False, pr_accepting = False\<rparr>, failed)
         else if adopts \<and> \<not> su_child_channel su
         then (\<lparr>pr_ready = True, pr_adopting = False, pr_accepting = False\<rparr>, failed)
         else (\<lparr>pr_ready = True, pr_adopting = adopts, pr_accepting = True\<rparr>,
           if list_all (\<lambda>ok. ok) (su_signals su)
           then Inr \<lparr>sv_mode = mode, sv_accepting = True, sv_quit = False,
                     sv_resumed = [], sv_dropped = []\<rparr>
           else failed))"

section \<open>Lemmas\<close>

definition frozen_of :: "'tx upgrade_env \<Rightarrow> frozen_session list" where
  "frozen_of env = fb_frozen (freeze_all (ue_answers env) (ue_senders env))"

lemma batch_eq:
  assumes "honest ans" and "distinct (map fst senders)"
  shows "freeze_all ans senders = \<lparr>fb_frozen = fb_frozen (freeze_all ans senders),
      fb_resumes = map fz_id (fb_frozen (freeze_all ans senders))\<rparr>"
    and "distinct (map fz_id (fb_frozen (freeze_all ans senders)))"
  using freeze_all_eq [OF assms] replies_distinct [OF assms] by simp_all

text \<open>What each outcome of a migrate shed does to the frozen sessions.\<close>

lemma shed_migrate_eq:
  assumes "honest (ue_answers env)" and "distinct (map fst (ue_senders env))"
    and "fs = frozen_of env"
  shows "shed_migrate env s =
    (if \<not> ue_joined env
     then (Inl upgrade_join, s\<lparr>sv_accepting := False, sv_dropped := sv_dropped s @ map fz_id fs\<rparr>)
     else if \<not> ue_upgraded env
     then (Inr Again, s\<lparr>sv_accepting := True, sv_resumed := sv_resumed s @ map (\<lambda>f. (fz_id f, f)) fs\<rparr>)
     else case ue_handoff env of
         (sent, Inr u) \<Rightarrow> (Inr ReturnOk, s\<lparr>sv_accepting := False, sv_quit := True,
           sv_dropped := sv_dropped s @ map fz_id fs\<rparr>)
       | (sent, Inl e) \<Rightarrow> (Inr BreakLoop, s\<lparr>sv_accepting := False,
           sv_resumed := sv_resumed s @ map (\<lambda>f. (fz_id f, f)) (drop sent fs),
           sv_dropped := sv_dropped s @ map fz_id (take sent fs)\<rparr>))"
proof -
  let ?b = "freeze_all (ue_answers env) (ue_senders env)"
  have b: "?b = \<lparr>fb_frozen = fs, fb_resumes = map fz_id fs\<rparr>" and d: "distinct (map fz_id fs)"
    using batch_eq [OF assms(1,2)] assms(3) by (simp_all add: frozen_of_def)
  note res = resume_skipping_eq [OF d]
  obtain sent r where h: "ue_handoff env = (sent, r)" by (cases "ue_handoff env")
  show ?thesis
    by (cases "ue_joined env"; cases "ue_upgraded env"; cases r)
      (simp_all add: shed_migrate_def abort_acceptor_def Let_def b h res resume_all_def finish_def end_batch_def)
qed

text \<open>What a well-behaved environment is: every session answers for itself.\<close>

definition env_ok :: "signal \<times> 'tx upgrade_env \<Rightarrow> bool" where
  "env_ok e \<longleftrightarrow> honest (ue_answers (snd e)) \<and> distinct (map fst (ue_senders (snd e)))"

lemma on_signal_cases:
  assumes "env_ok (sig, env)" and "on_signal sig env s = (r, s')" and "sv_accepting s" and "\<not> sv_quit s"
  shows "sv_mode s' = sv_mode s \<and>
    (r = Inr Again \<longrightarrow> sv_accepting s' \<and> \<not> sv_quit s' \<and> sv_dropped s' = sv_dropped s) \<and>
    (r = Inr ReturnOk \<longrightarrow> \<not> sv_accepting s' \<and> sv_quit s' \<and> sv_resumed s' = sv_resumed s \<and>
      sv_dropped s' = sv_dropped s @ map fz_id (frozen_of env)) \<and>
    (\<forall>e. r = Inl e \<longrightarrow> sv_resumed s' = sv_resumed s \<and> \<not> sv_quit s')"
proof -
  note mig = shed_migrate_eq [OF _ _ refl, of env s]
  show ?thesis
    using assms mig
    by (auto simp: env_ok_def on_signal_def shed_drain_def
        split: signal.splits shed_mode.splits if_splits prod.splits sum.splits)
qed

section \<open>Properties\<close>

text \<open>
  C35. A failed upgrade leaves the service as it was. However often an upgrade is requested and
  fails, in either mode, the process goes on serving and accepting; in migrate mode every
  session frozen for an attempt has been sent a resume message with its own snapshot, once
  per attempt and in order, and no resume channel has been dropped.
\<close>

theorem failed_upgrades_harmless:
  assumes "list_all env_ok sigs"
    and "list_all (\<lambda>(sig, env). sig = SigUsr2 \<and> ue_joined env \<and> \<not> ue_upgraded env) sigs"
    and "sv_accepting s"
  shows "run_loop drained sigs s = (None, s\<lparr>sv_resumed := sv_resumed s @
    (case sv_mode s of DrainMode \<Rightarrow> []
     | MigrateMode \<Rightarrow> concat (map (\<lambda>(sig, env). map (\<lambda>f. (fz_id f, f)) (frozen_of env)) sigs))\<rparr>)"
  using assms
proof (induction sigs arbitrary: s)
  case Nil
  then show ?case by (simp split: shed_mode.splits)
next
  case (Cons e sigs)
  obtain sig env where e: "e = (sig, env)" by (cases e)
  note mig = shed_migrate_eq [OF _ _ refl, of env s]
  show ?case
  proof (cases "sv_mode s")
    case DrainMode
    with Cons e show ?thesis by (simp add: on_signal_def shed_drain_def)
  next
    case MigrateMode
    let ?s' = "s\<lparr>sv_accepting := True,
      sv_resumed := sv_resumed s @ map (\<lambda>f. (fz_id f, f)) (frozen_of env)\<rparr>"
    have same: "?s' = s\<lparr>sv_resumed := sv_resumed s @ map (\<lambda>f. (fz_id f, f)) (frozen_of env)\<rparr>"
      using Cons.prems(3) by (cases s) simp
    have "on_signal sig env s = (Inr Again, ?s')"
      using Cons.prems e MigrateMode mig by (simp add: on_signal_def env_ok_def)
    with Cons.IH [of ?s'] Cons.prems e MigrateMode show ?thesis by (simp add: same)
  qed
qed

text \<open>
  C36. Sessions are let go only by the iteration that ends the main loop. Whatever signals
  arrive and however freezes, upgrades and handoffs go, whenever the loop is back at its head the
  process accepts connections, has not told ecdysis to quit and has dropped no frozen session
  (within an iteration that migrates, the acceptor is stopped from the abort to the outcome);
  once the loop has returned without an error the process accepts no more and has told ecdysis
  to quit.
\<close>

theorem sessions_dropped_only_on_exit:
  assumes "list_all env_ok sigs" and "sv_accepting s" and "\<not> sv_quit s"
    and "run_loop drained sigs s = (r, s')"
  shows "case r of
      None \<Rightarrow> sv_accepting s' \<and> \<not> sv_quit s' \<and> sv_dropped s' = sv_dropped s
    | Some (ReturnedOk d) \<Rightarrow> \<not> sv_accepting s' \<and> sv_quit s'
    | Some (ReturnedErr e) \<Rightarrow> \<not> sv_quit s'"
  using assms
proof (induction sigs arbitrary: s)
  case Nil
  then show ?case by auto
next
  case (Cons e sigs)
  obtain sig env where e: "e = (sig, env)" by (cases e)
  obtain x s1 where st: "on_signal sig env s = (x, s1)" by (cases "on_signal sig env s")
  note one = on_signal_cases [OF _ st Cons.prems(2,3)]
  show ?case
  proof (cases "x = Inr Again")
    case True
    with one e st Cons.prems have s1: "sv_accepting s1" "\<not> sv_quit s1" "sv_dropped s1 = sv_dropped s"
      and run: "run_loop drained sigs s1 = (r, s')" by simp_all
    from Cons.IH [OF _ s1(1,2) run] Cons.prems(1) show ?thesis
      by (auto simp: s1(3) split: option.splits run_result.splits)
  next
    case False
    with Cons.prems one e st show ?thesis
      by (cases x) (auto split: flow.splits)
  qed
qed

definition sample_env :: "bool \<Rightarrow> nat \<times> unit res \<Rightarrow> unit upgrade_env" where
  "sample_env up h = \<lparr>ue_joined = True, ue_upgraded = up, ue_senders = [(0, ()), (1, ())],
     ue_answers = (\<lambda>i. if i = 1 then ReplyTimedOut else Replied (sample_frozen i)), ue_handoff = h\<rparr>"

definition sample_server :: server where
  "sample_server = \<lparr>sv_mode = MigrateMode, sv_accepting = True, sv_quit = False, sv_resumed = [],
     sv_dropped = []\<rparr>"

lemma sample_env_ok: "env_ok (SigUsr2, sample_env up h)"
  by (simp add: env_ok_def sample_env_def honest_def sample_frozen_def)

lemma sample_env_simps [simp]:
  "ue_joined (sample_env up h)" "ue_upgraded (sample_env up h) = up" "fz_id (sample_frozen i) = i"
  by (simp_all add: sample_env_def sample_frozen_def)

lemma sample_frozen_of: "frozen_of (sample_env up h) = [sample_frozen 0]"
  by (simp add: frozen_of_def freeze_all_def freeze_one_def sample_env_def)

theorem failed_upgrades_harmless_witness:
  "run_loop True [(SigUsr2, sample_env False (0, Inr ())), (SigUsr2, sample_env False (0, Inr ()))] sample_server
   = (None, sample_server\<lparr>sv_resumed := [(0, sample_frozen 0), (0, sample_frozen 0)]\<rparr>)"
  by (subst failed_upgrades_harmless)
    (simp_all add: sample_env_ok sample_frozen_of sample_server_def)

theorem sessions_dropped_only_on_exit_witness:
  "\<exists>s'. run_loop True [(SigUsr2, sample_env False (0, Inr ()))] sample_server = (None, s') \<and>
     sv_accepting s' \<and> sv_dropped s' = []"
proof -
  obtain r s' where run: "run_loop True [(SigUsr2, sample_env False (0, Inr ()))] sample_server = (r, s')"
    by (cases "run_loop True [(SigUsr2, sample_env False (0, Inr ()))] sample_server")
  have "r = None"
    using run by (auto simp: on_signal_def sample_server_def shed_migrate_def sample_env_def Let_def)
  with sessions_dropped_only_on_exit [OF _ _ _ run] run show ?thesis
    by (auto simp: sample_env_ok sample_server_def)
qed

text \<open>The connections among the results of \<open>accept\<close>.\<close>

fun accepted_fds :: "accepted list \<Rightarrow> raw_fd list" where
  "accepted_fds [] = []"
| "accepted_fds (Accepted fd # rs) = fd # accepted_fds rs"
| "accepted_fds (AcceptError # rs) = accepted_fds rs"

lemma spawn_acceptor_eq:
  "spawn_acceptor rs a =
   \<lparr>ac_tracker = (ac_tracker a)\<lparr>dt_sessions := dt_sessions (ac_tracker a) + of_nat (length (accepted_fds rs))\<rparr>,
    ac_spawned = ac_spawned a @ accepted_fds rs,
    ac_slept = ac_slept a + (length rs - length (accepted_fds rs)) * ACCEPT_BACKOFF\<rparr>"
proof (induction rs arbitrary: a)
  case Nil
  then show ?case by (simp add: spawn_acceptor_def)
next
  case (Cons r rs)
  have "length (accepted_fds rs) \<le> length rs" by (induction rs rule: accepted_fds.induct) simp_all
  with Cons show ?case
    by (cases r) (simp_all add: spawn_acceptor_def acceptor_step_def drain_track_def Suc_diff_le)
qed

text \<open>
  C37. The server's acceptor survives accept errors. Whatever \<open>accept\<close> yields, every accepted
  connection becomes a session, in order, each counted by the drain tracker, and each error
  costs 100 ms; the accept loops of \<open>serve\<close> and of the in-process proxy serve the connections
  before the first error and no others, \<open>serve\<close> reporting it.
\<close>

theorem acceptor_survives_errors:
  "ac_spawned (spawn_acceptor rs a) = ac_spawned a @ accepted_fds rs \<and>
   dt_sessions (ac_tracker (spawn_acceptor rs a)) =
     dt_sessions (ac_tracker a) + of_nat (length (accepted_fds rs)) \<and>
   ac_slept (spawn_acceptor rs a) = ac_slept a + (length rs - length (accepted_fds rs)) * ACCEPT_BACKOFF \<and>
   proxy_start rs = accepted_fds (takeWhile (\<lambda>r. r \<noteq> AcceptError) rs) \<and>
   serve rs = (proxy_start rs,
     if AcceptError \<in> set rs then Some (Inl (IoError OtherIo ''accept'')) else None)"
proof -
  have "proxy_start rs = accepted_fds (takeWhile (\<lambda>r. r \<noteq> AcceptError) rs) \<and>
    serve rs = (proxy_start rs, if AcceptError \<in> set rs then Some (Inl (IoError OtherIo ''accept'')) else None)"
    by (induction rs rule: accepted_fds.induct) auto
  then show ?thesis by (simp add: spawn_acceptor_eq)
qed

end
