(* ===== verification/Upgrade.thy ===== *)
theory Upgrade
  imports Lifecycle Migrate Server
begin

text \<open>
  An upgrade across both process generations: the child's adoption of the sessions it has
  received (the prologue of \<open>run\<close> in \<open>server.rs\<close>), the answers live sessions give to a
  freeze, and the life of a session over any number of generations.
\<close>

section \<open>Adopting the previous generation's sessions\<close>

text \<open>A session that cannot be adopted is logged and skipped.\<close>

definition adopt_one ::
  "('x, 'c) rmqtt \<Rightarrow> (raw_fd \<Rightarrow> bool) \<Rightarrow> instant \<Rightarrow> 'tx \<Rightarrow> session_snapshot \<times> raw_fd \<Rightarrow>
   'c session list \<times> 'tx registry \<Rightarrow> 'c session list \<times> 'tx registry" where
  "adopt_one C sock_ok now tx e acc =
     (case adopt_session C (snd e) (fst e) (sock_ok (snd e)) now tx (snd acc) of
        Inl err \<Rightarrow> acc
      | Inr (s, r) \<Rightarrow> (fst acc @ [s], r))"

definition adopt_migrated ::
  "('x, 'c) rmqtt \<Rightarrow> (raw_fd \<Rightarrow> bool) \<Rightarrow> instant \<Rightarrow> 'tx \<Rightarrow>
   (session_snapshot \<times> raw_fd) list res \<Rightarrow> 'tx registry \<Rightarrow> 'c session list \<times> 'tx registry" where
  "adopt_migrated C sock_ok now tx received r =
     (case received of
        Inl e \<Rightarrow> ([], r)
      | Inr sessions \<Rightarrow> fold (adopt_one C sock_ok now tx) sessions ([], r))"

section \<open>Live sessions\<close>

text \<open>
  The live sessions as the coordinator sees them: each answers a freeze with its own frozen
  session, or fails to.
\<close>

definition session_answers ::
  "(u64 \<Rightarrow> 'c session option) \<Rightarrow> (u64 \<Rightarrow> bool) \<Rightarrow> u64 \<Rightarrow> freeze_answer" where
  "session_answers live responsive i =
     (case live i of
        None \<Rightarrow> SendFailed
      | Some s \<Rightarrow> if responsive i then Replied (own_frozen s) else ReplyTimedOut)"

definition live_ok :: "(u64 \<Rightarrow> 'c session option) \<Rightarrow> bool" where
  "live_ok live \<longleftrightarrow> (\<forall>i s. live i = Some s \<longrightarrow> s_id s = i)"

lemma own_frozen_id [simp]: "fz_id (own_frozen s) = s_id s"
  by (simp add: own_frozen_def freeze_snapshot_def)

lemma own_frozen_fd [simp]: "fz_client_fd (own_frozen s) = fr_io (s_client s)"
  by (simp add: own_frozen_def freeze_snapshot_def)

lemma session_answers_honest: "live_ok live \<Longrightarrow> honest (session_answers live responsive)"
  by (auto simp: honest_def session_answers_def live_ok_def split: option.splits if_splits)

text \<open>The sessions among the senders that answer, in the order they are asked.\<close>

definition responding ::
  "(u64 \<Rightarrow> 'c session option) \<Rightarrow> (u64 \<Rightarrow> bool) \<Rightarrow> (u64 \<times> 'tx) list \<Rightarrow> 'c session list" where
  "responding live responsive senders =
     List.map_filter (\<lambda>(i, _). if responsive i then live i else None) senders"

lemma replies_responding:
  "replies (session_answers live responsive) senders = map own_frozen (responding live responsive senders)"
  by (induction senders)
    (auto simp: responding_def session_answers_def List.map_filter_simps split: option.splits)

lemma frozen_responding:
  assumes "live_ok live" and "distinct (map fst (ue_senders env))"
    and "ue_answers env = session_answers live responsive"
  shows "frozen_of env = map own_frozen (responding live responsive (ue_senders env))"
  using freeze_all_eq [OF session_answers_honest [OF assms(1)] assms(2), of responsive] assms(3)
  by (simp add: frozen_of_def replies_responding)

lemma responding_live:
  assumes "live_ok live" and "s \<in> set (responding live responsive senders)"
  shows "live (s_id s) = Some s"
proof -
  obtain i where "live i = Some s"
    using assms(2) by (auto simp: responding_def List.map_filter_def split: if_splits)
  with assms(1) show ?thesis by (simp add: live_ok_def)
qed

section \<open>Adoption succeeds\<close>

definition carries_on :: "('x, 'c) rmqtt \<Rightarrow> 'c session \<Rightarrow> 'c session \<Rightarrow> bool" where
  "carries_on C s s' \<longleftrightarrow>
     s_windows s' = s_windows s \<and> s_buffer s' = s_buffer s \<and> s_subscriptions s' = s_subscriptions s \<and>
     hs_version (s_hs s') = hs_version (s_hs s) \<and> hs_connect_raw (s_hs s') = hs_connect_raw (s_hs s) \<and>
     fr_io (s_client s') = fr_io (s_client s) \<and>
     fr_read_buf (s_client s') = fr_read_buf (s_client s) \<and>
     s_leftover s' = (case s_broker s of Some b \<Rightarrow> fr_read_buf b | None \<Rightarrow> []) \<and>
     s_broker s' = None \<and> session_inv s' \<and> recoverable C (s_hs s')"

lemma adopt_carries_on:
  fixes C :: "('x, 'c) rmqtt" and s :: "'c session"
  assumes "session_inv s" and "recoverable C (s_hs s)"
    and "adopt_session C fd (fz_snapshot (own_frozen s)) True now tx r = Inr (s', r')"
  shows "s_windows s' = s_windows s \<and> s_buffer s' = s_buffer s \<and> s_subscriptions s' = s_subscriptions s \<and>
     hs_version (s_hs s') = hs_version (s_hs s) \<and> hs_connect_raw (s_hs s') = hs_connect_raw (s_hs s) \<and>
     fr_io (s_client s') = fd \<and> fr_read_buf (s_client s') = fr_read_buf (s_client s) \<and>
     s_leftover s' = (case s_broker s of Some b \<Rightarrow> fr_read_buf b | None \<Rightarrow> []) \<and>
     s_broker s' = None \<and> session_inv s' \<and> recoverable C (s_hs s')"
proof -
  obtain i r1 where reg: "register tx r = (i, r1)" by (cases "register tx r")
  with adopt_frozen [OF assms(1,2), of fd now tx r] assms(3) obtain ka where
    "s' = s\<lparr>s_id := i,
       s_client := \<lparr>fr_io = fd, fr_codec = codec_for C (hs_version (s_hs s)),
         fr_read_buf = fr_read_buf (s_client s)\<rparr>,
       s_broker := None, s_hs := (s_hs s)\<lparr>hs_keep_alive := ka\<rparr>,
       s_leftover := (case s_broker s of Some b \<Rightarrow> fr_read_buf b | None \<Rightarrow> []),
       s_backoff := BROKER_RETRY_INITIAL, s_step := Connect, s_last_activity := now\<rparr>"
    by auto
  with assms(1,2) show ?thesis by (simp add: session_inv_def)
qed

lemma adopt_all:
  fixes C :: "('x, 'c) rmqtt" and ss :: "'c session list"
  assumes "\<And>s. s \<in> set ss \<Longrightarrow> session_inv s \<and> recoverable C (s_hs s)" and "\<And>fd. sock_ok fd"
  shows "\<exists>ss' r'. fold (adopt_one C sock_ok now tx) (map (\<lambda>s. handed (own_frozen s)) ss) (acc, r) = (acc @ ss', r') \<and>
    list_all2 (carries_on C) ss ss'"
  using assms(1)
proof (induction ss arbitrary: acc r)
  case Nil
  then show ?case by simp
next
  case (Cons s ss)
  have ok: "session_inv s" "recoverable C (s_hs s)" using Cons.prems by simp_all
  obtain i r0 where reg: "register tx r = (i, r0)" by (cases "register tx r")
  obtain s1 r1 where ad: "adopt_session C (fr_io (s_client s)) (fz_snapshot (own_frozen s)) True now tx r
      = Inr (s1, r1)"
    using adopt_frozen [OF ok, of "fr_io (s_client s)" now tx r] by (auto simp: reg)
  have co: "carries_on C s s1" using adopt_carries_on [OF ok ad] by (simp add: carries_on_def)
  have one: "adopt_one C sock_ok now tx (handed (own_frozen s)) (acc, r) = (acc @ [s1], r1)"
    using ad assms(2) by (simp add: adopt_one_def handed_def)
  from Cons.IH [of "acc @ [s1]" r1] Cons.prems obtain ss' r' where
    "fold (adopt_one C sock_ok now tx) (map (\<lambda>s. handed (own_frozen s)) ss) (acc @ [s1], r1)
       = (acc @ s1 # ss', r')" "list_all2 (carries_on C) ss ss'" by auto
  with one co show ?case by (intro exI [of _ "s1 # ss'"] exI [of _ r']) simp
qed

section \<open>Many generations\<close>

text \<open>
  The life of a session over process generations: iterations in one process, then a migration
  and iterations in the next one, with the events of all of them. Each generation has its own
  clock and its own connections.
\<close>

inductive lifetime ::
  "('x, 'c) rmqtt \<Rightarrow> 'c session \<Rightarrow> (instant \<times> ('x, 'c) event) list \<Rightarrow> 'c session \<Rightarrow> bool"
  for C where
  one_generation: "run (session_step C) (t, s, w) es (t', s', w') \<Longrightarrow> lifetime C s es s'"
| next_generation: "lifetime C s es s1 \<Longrightarrow>
    adopt_session C fd (fz_snapshot (own_frozen s1)) True now tx r = Inr (s2, r' :: unit registry) \<Longrightarrow>
    run (session_step C) (t, s2, w) es' (t', s3, w') \<Longrightarrow> lifetime C s (es @ es') s3"

lemma generation_keeps:
  assumes "encode_headers C" and "run (session_step C) (t, s, w) es (t', s', w')"
    and "session_inv s" and "recoverable C (s_hs s)" and "list_all (event_ok C) es"
    and "covers l (s_buffer s) (s_windows s)"
  shows "session_inv s' \<and> recoverable C (s_hs s') \<and>
    covers (fold (conversation C) es l) (s_buffer s') (s_windows s')"
proof -
  have "session_inv s' \<and> recoverable C (s_hs s')"
    using keeps_handshake.inv_run [OF assms(2) _ assms(5)] assms(1,3,4) by simp
  with covers_run [OF assms(1,3,2,5,6)] show ?thesis by simp
qed

lemma lifetime_keeps:
  assumes "lifetime C s es s'" and "encode_headers C"
    and "session_inv s" and "recoverable C (s_hs s)" and "list_all (event_ok C) es"
    and "covers l (s_buffer s) (s_windows s)"
  shows "session_inv s' \<and> recoverable C (s_hs s') \<and>
    covers (fold (conversation C) es l) (s_buffer s') (s_windows s')"
  using assms
proof (induction rule: lifetime.induct)
  case (one_generation t s w es t' s' w')
  then show ?case using generation_keeps by blast
next
  case (next_generation s es s1 fd now tx r s2 r' t w es' t' s3 w')
  then have 1: "session_inv s1" "recoverable C (s_hs s1)"
    "covers (fold (conversation C) es l) (s_buffer s1) (s_windows s1)"
    by simp_all
  from adopt_carries_on [OF 1(1,2) next_generation.hyps(2)] 1(3)
  have "session_inv s2" "recoverable C (s_hs s2)"
    "covers (fold (conversation C) es l) (s_buffer s2) (s_windows s2)" by simp_all
  from generation_keeps [OF assms(2) next_generation.hyps(3) this(1,2) _ this(3)] next_generation.prems
  show ?case by simp
qed

end
