(* ===== verification/Cli.thy ===== *)
theory Cli
  imports Server
begin

text \<open>
  The command line (\<open>main.rs\<close>): the loop over the arguments and what each option does.
  \<open>usage()\<close> prints the usage and exits with status 2; it is the value \<open>Usage\<close>. The standard
  library's \<open>u64\<close> parser is written out; its parser of socket addresses is an argument.
\<close>

section \<open>Parsing numbers\<close>

definition digit_of :: "char \<Rightarrow> nat option" where
  "digit_of c = (let n = of_char c in if (48 :: nat) \<le> n \<and> n \<le> 57 then Some (n - 48) else None)"

text \<open>Digits from the left, failing on overflow.\<close>

fun parse_digits :: "nat \<Rightarrow> string \<Rightarrow> u64 option" where
  "parse_digits acc [] = Some (of_nat acc)"
| "parse_digits acc (c # cs) =
     (case digit_of c of
        None \<Rightarrow> None
      | Some d \<Rightarrow> if acc * 10 + d < 2 ^ 64 then parse_digits (acc * 10 + d) cs else None)"

definition parse_u64 :: "string \<Rightarrow> u64 option" where
  "parse_u64 s =
     (case s of
        [] \<Rightarrow> None
      | c # cs \<Rightarrow> if c = CHR ''+'' then (if cs = [] then None else parse_digits 0 cs)
                 else parse_digits 0 (c # cs))"

section \<open>The loop over the arguments\<close>

datatype 'a cli = Usage | Parsed 'a

record options =
  opt_listen :: "string option"
  opt_broker :: "string option"
  opt_drain_timeout :: u64
  opt_mode :: shed_mode

definition default_options :: options where
  "default_options = \<lparr>opt_listen = None, opt_broker = None, opt_drain_timeout = 60, opt_mode = DrainMode\<rparr>"

definition set_option :: "string \<Rightarrow> string \<Rightarrow> options \<Rightarrow> options cli" where
  "set_option opt v o' =
     (if opt = ''--listen'' then Parsed (o'\<lparr>opt_listen := Some v\<rparr>)
      else if opt = ''--broker'' then Parsed (o'\<lparr>opt_broker := Some v\<rparr>)
      else if opt = ''--drain-timeout-secs'' then
        (case parse_u64 v of None \<Rightarrow> Usage | Some n \<Rightarrow> Parsed (o'\<lparr>opt_drain_timeout := n\<rparr>))
      else if opt = ''--mode'' then
        (if v = ''drain'' then Parsed (o'\<lparr>opt_mode := DrainMode\<rparr>)
         else if v = ''migrate'' then Parsed (o'\<lparr>opt_mode := MigrateMode\<rparr>)
         else Usage)
      else Usage)"

text \<open>An option without a value and an unknown option both end in the usage message.\<close>

fun parse_options :: "string list \<Rightarrow> options \<Rightarrow> options cli" where
  "parse_options [] o' = Parsed o'"
| "parse_options [arg] o' = Usage"
| "parse_options (arg # v # args) o' =
     (case set_option arg v o' of Usage \<Rightarrow> Usage | Parsed o1 \<Rightarrow> parse_options args o1)"

definition parse_args ::
  "(string \<Rightarrow> 'addr option) \<Rightarrow> string list \<Rightarrow> ('addr \<times> 'addr \<times> u64 \<times> shed_mode) cli" where
  "parse_args parse_addr args =
     (case parse_options args default_options of
        Usage \<Rightarrow> Usage
      | Parsed o' \<Rightarrow>
          (case opt_listen o' of
             None \<Rightarrow> Usage
           | Some l \<Rightarrow>
               (case parse_addr l of
                  None \<Rightarrow> Usage
                | Some listen \<Rightarrow>
                    (case opt_broker o' of
                       None \<Rightarrow> Usage
                     | Some b \<Rightarrow>
                         (case parse_addr b of
                            None \<Rightarrow> Usage
                          | Some broker \<Rightarrow>
                              Parsed (listen, broker, opt_drain_timeout o', opt_mode o'))))))"

text \<open>
  \<open>main\<close>: the exit status after a usage message, or the server with its settings as far as its
  own prologue comes.
\<close>

definition main_start ::
  "(string \<Rightarrow> 'addr option) \<Rightarrow> string list \<Rightarrow> startup \<Rightarrow> bool \<Rightarrow> bool \<Rightarrow>
   int + ('addr \<times> 'addr \<times> u64 \<times> prologue \<times> server res)" where
  "main_start parse_addr args su is_child from_parent =
     (case parse_args parse_addr args of
        Usage \<Rightarrow> Inl 2
      | Parsed (listen, broker, drain_timeout, mode) \<Rightarrow>
          Inr (listen, broker, drain_timeout, server_start su is_child from_parent mode))"

section \<open>Printing\<close>

text \<open>The command line that asks for given settings.\<close>

fun show_nat :: "nat \<Rightarrow> string" where
  "show_nat n = (if n < 10 then [char_of (48 + n)] else show_nat (n div 10) @ [char_of (48 + n mod 10)])"

declare show_nat.simps [simp del]

definition show_mode :: "shed_mode \<Rightarrow> string" where
  "show_mode m = (case m of DrainMode \<Rightarrow> ''drain'' | MigrateMode \<Rightarrow> ''migrate'')"

datatype setting = Listen string | Broker string | DrainTimeout u64 | Mode shed_mode

fun show_setting :: "setting \<Rightarrow> string list" where
  "show_setting (Listen a) = [''--listen'', a]"
| "show_setting (Broker a) = [''--broker'', a]"
| "show_setting (DrainTimeout n) = [''--drain-timeout-secs'', show_nat (unat n)]"
| "show_setting (Mode m) = [''--mode'', show_mode m]"

fun apply_setting :: "setting \<Rightarrow> options \<Rightarrow> options" where
  "apply_setting (Listen a) o' = o'\<lparr>opt_listen := Some a\<rparr>"
| "apply_setting (Broker a) o' = o'\<lparr>opt_broker := Some a\<rparr>"
| "apply_setting (DrainTimeout n) o' = o'\<lparr>opt_drain_timeout := n\<rparr>"
| "apply_setting (Mode m) o' = o'\<lparr>opt_mode := m\<rparr>"

section \<open>Lemmas\<close>

lemma digit_of_char: "d < 10 \<Longrightarrow> digit_of (char_of (48 + d)) = Some d"
  by (simp add: digit_of_def)

lemma parse_digits_append:
  "parse_digits acc (xs @ ys) =
   (case parse_digits acc xs of None \<Rightarrow> None | Some n \<Rightarrow> parse_digits (unat n) ys)"
  if "acc < 2 ^ 64"
  using that
proof (induction xs arbitrary: acc)
  case Nil
  then show ?case by (simp add: unat_of_guards)
next
  case (Cons x xs)
  then show ?case by (simp split: option.splits)
qed

lemma parse_show_nat: "n < 2 ^ 64 \<Longrightarrow> parse_digits 0 (show_nat n) = Some (of_nat n)"
proof (induction n rule: show_nat.induct)
  case (1 n)
  show ?case
  proof (cases "n < 10")
    case True
    with "1.prems" show ?thesis by (simp add: show_nat.simps [of n] digit_of_char)
  next
    case False
    have "parse_digits 0 (show_nat (n div 10)) = Some (of_nat (n div 10))"
      using 1 False by simp
    moreover have "unat (of_nat (n div 10) :: u64) = n div 10"
      using "1.prems" by (intro unat_of_guards) simp
    ultimately show ?thesis
      using False "1.prems"
      by (simp add: show_nat.simps [of n] parse_digits_append digit_of_char)
  qed
qed

lemma parse_u64_show: "parse_u64 (show_nat (unat n)) = Some n"
proof -
  have digits: "parse_digits 0 (show_nat (unat n)) = Some n"
    using parse_show_nat [of "unat n"] unsigned_less [of n] by simp
  have "show_nat (unat n) \<noteq> []" by (simp add: show_nat.simps)
  then obtain c cs where cs: "show_nat (unat n) = c # cs" by (cases "show_nat (unat n)") auto
  with digits have "c \<noteq> CHR ''+''" by (auto simp: digit_of_def)
  with cs digits show ?thesis by (simp add: parse_u64_def)
qed

lemma parse_setting:
  "parse_options (show_setting t @ args) o' = parse_options args (apply_setting t o')"
proof (cases t)
  case (Mode m)
  then show ?thesis by (cases m) (simp_all add: set_option_def show_mode_def)
qed (simp_all add: set_option_def parse_u64_show)

lemma parse_settings:
  "parse_options (concat (map show_setting ts)) o' = Parsed (fold apply_setting ts o')"
  by (induction ts arbitrary: o') (simp_all add: parse_setting)

section \<open>Properties\<close>

text \<open>
  C38. The command line means what it says. For any list of settings, in any order and with any
  repetitions, the program starts with given addresses, timeout and mode exactly when the
  last settings of each kind say so, starting from no addresses, 60 seconds and drain mode:
  timeouts over the whole 64-bit range are read back exactly and both addresses are required.
\<close>

theorem parse_args_settings:
  "parse_args parse_addr (concat (map show_setting ts)) = Parsed (listen, broker, secs, mode) \<longleftrightarrow>
   (\<exists>o' l b. o' = fold apply_setting ts \<lparr>opt_listen = None, opt_broker = None,
       opt_drain_timeout = 60, opt_mode = DrainMode\<rparr> \<and>
     opt_listen o' = Some l \<and> parse_addr l = Some listen \<and>
     opt_broker o' = Some b \<and> parse_addr b = Some broker \<and>
     opt_drain_timeout o' = secs \<and> opt_mode o' = mode)"
  by (auto simp: parse_args_def parse_settings default_options_def split: option.splits)

end
