(* ===== verification/Td_Init.thy ===== *)
theory Td_Init
  imports Prelude Event_System "HOL-Library.Sublist"
begin

text \<open>
  The init process (\<open>bin/td-init.rs\<close>): argument handling, and the loop that forwards signals
  to the program's process group and reaps descendants until none is left. The signal handler
  runs between any two instructions, so the swap of the pending signal and the call of
  \<open>waitpid\<close> are separate steps; a handler that runs while \<open>waitpid\<close> blocks makes it return
  \<open>EINTR\<close>. The kernel's count of unreaped descendants is part of the state: \<open>waitpid\<close> reports
  \<open>ECHILD\<close> exactly when it is zero.
\<close>

section \<open>Starting\<close>

text \<open>The program and its arguments, or exit status 2.\<close>

definition init_args :: "string list \<Rightarrow> string list option" where
  "init_args args =
     (let args' = (case args of a # as \<Rightarrow> if a = ''--'' then as else args | [] \<Rightarrow> [])
      in if args' = [] then None else Some args')"

datatype fork_result = ForkChild | ForkParent int | ForkError

text \<open>
  The exit status of the process that runs after \<open>fork\<close>, if it exits at once: the child when
  \<open>execv\<close> returns, the parent when \<open>fork\<close> failed.
\<close>

definition after_fork :: "fork_result \<Rightarrow> int option" where
  "after_fork r = (case r of ForkChild \<Rightarrow> Some 127 | ForkParent child \<Rightarrow> None | ForkError \<Rightarrow> Some 1)"

section \<open>The loop\<close>

text \<open>About to swap, about to call \<open>waitpid\<close>, blocked in it, exited.\<close>

datatype init_pc = ISwap | ICall | IBlocked | IExit int

datatype wait_result = ExitedOk int int | OtherStatus int | NoChild | OtherErrno

record init_state =
  in_child :: int
  in_pending :: nat
  in_last_status :: int
  in_pc :: init_pc
  in_forwarded :: "nat list"
  in_live :: nat

datatype init_label = Sig nat | DoSwap | DoCall | Ret wait_result | Fork

definition record_signal :: "nat \<Rightarrow> init_state \<Rightarrow> init_state" where
  "record_signal sig s = s\<lparr>in_pending := sig\<rparr>"

definition forward_pending :: "init_state \<Rightarrow> init_state" where
  "forward_pending s =
     (let pending = in_pending s; s' = s\<lparr>in_pending := 0\<rparr>
      in if pending \<noteq> 0 then s'\<lparr>in_forwarded := in_forwarded s' @ [pending]\<rparr> else s')"

definition handle_wait :: "wait_result \<Rightarrow> init_state \<Rightarrow> init_state" where
  "handle_wait r s =
     (case r of
        ExitedOk pid code \<Rightarrow>
          (if pid = in_child s then s\<lparr>in_last_status := code, in_pc := ISwap\<rparr> else s\<lparr>in_pc := ISwap\<rparr>)
      | OtherStatus pid \<Rightarrow> s\<lparr>in_pc := ISwap\<rparr>
      | NoChild \<Rightarrow> s\<lparr>in_pc := IExit (in_last_status s)\<rparr>
      | OtherErrno \<Rightarrow> s\<lparr>in_pc := IExit 1\<rparr>)"

inductive init_step :: "init_state \<Rightarrow> init_label \<Rightarrow> init_state \<Rightarrow> bool" where
  signal_running: "sig \<noteq> 0 \<Longrightarrow> in_pc s \<in> {ISwap, ICall} \<Longrightarrow> init_step s (Sig sig) (record_signal sig s)"
| signal_blocked: "sig \<noteq> 0 \<Longrightarrow> in_pc s = IBlocked \<Longrightarrow>
    init_step s (Sig sig) ((record_signal sig s)\<lparr>in_pc := ISwap\<rparr>)"
| swap: "in_pc s = ISwap \<Longrightarrow> init_step s DoSwap ((forward_pending s)\<lparr>in_pc := ICall\<rparr>)"
| call: "in_pc s = ICall \<Longrightarrow> init_step s DoCall (s\<lparr>in_pc := IBlocked\<rparr>)"
| reap: "in_pc s = IBlocked \<Longrightarrow> r \<in> {ExitedOk pid code, OtherStatus pid} \<Longrightarrow> 0 < in_live s \<Longrightarrow>
    init_step s (Ret r) ((handle_wait r s)\<lparr>in_live := in_live s - 1\<rparr>)"
| childless: "in_pc s = IBlocked \<Longrightarrow> in_live s = 0 \<Longrightarrow> init_step s (Ret NoChild) (handle_wait NoChild s)"
| wait_failed: "in_pc s = IBlocked \<Longrightarrow> init_step s (Ret OtherErrno) (handle_wait OtherErrno s)"
| forks: "0 < in_live s \<Longrightarrow> (\<forall>c. in_pc s \<noteq> IExit c) \<Longrightarrow> init_step s Fork (s\<lparr>in_live := in_live s + 1\<rparr>)"

inductive_cases init_stepE: "init_step s l s'"

text \<open>After the fork: one descendant, the direct child.\<close>

definition init_start :: "int \<Rightarrow> init_state" where
  "init_start child = \<lparr>in_child = child, in_pending = 0, in_last_status = 0, in_pc = ISwap,
     in_forwarded = [], in_live = 1\<rparr>"

section \<open>Lemmas\<close>

fun received_signals :: "init_label list \<Rightarrow> nat list" where
  "received_signals [] = []"
| "received_signals (Sig sig # ls) = sig # received_signals ls"
| "received_signals (l # ls) = received_signals ls"

text \<open>The status the direct child exited with, zero until it has.\<close>

fun child_status :: "int \<Rightarrow> init_label \<Rightarrow> int \<Rightarrow> int" where
  "child_status child (Ret (ExitedOk pid code)) st = (if pid = child then code else st)"
| "child_status child l st = st"

lemma received_signals_append [simp]: "received_signals (ls @ ls') = received_signals ls @ received_signals ls'"
  by (induction ls rule: received_signals.induct) simp_all

definition init_rel :: "int \<Rightarrow> init_label list \<Rightarrow> init_state \<Rightarrow> bool" where
  "init_rel child ls s \<longleftrightarrow> in_child s = child \<and>
     in_last_status s = fold (child_status child) ls 0 \<and>
     subseq (in_forwarded s @ (if in_pending s = 0 then [] else [in_pending s])) (received_signals ls) \<and>
     (\<forall>c. in_pc s = IExit c \<and> Ret OtherErrno \<notin> set ls \<longrightarrow> in_live s = 0 \<and> c = in_last_status s)"

lemma subseq_prefix: "subseq (xs @ ys) zs \<Longrightarrow> subseq xs zs"
  by (meson prefixI prefix_imp_subseq subseq_order.trans)

lemma init_rel_run: "run init_step s0 ls s \<Longrightarrow> s0 = init_start child \<Longrightarrow> init_rel child ls s"
proof (induction rule: run.induct)
  case (run_nil s)
  then show ?case by (simp add: init_rel_def init_start_def)
next
  case (run_snoc s0 ls s l s')
  then have rel: "init_rel child ls s" by simp
  from run_snoc.hyps(2) show ?case
  proof cases
    case (signal_running sig)
    with rel subseq_prefix show ?thesis
      by (auto simp: init_rel_def record_signal_def intro!: list_emb_append_mono split: if_splits)
  next
    case (signal_blocked sig)
    with rel subseq_prefix show ?thesis
      by (auto simp: init_rel_def record_signal_def intro!: list_emb_append_mono split: if_splits)
  next
    case swap
    with rel show ?thesis
      by (auto simp: init_rel_def forward_pending_def Let_def)
  next
    case (reap r pid code)
    with rel show ?thesis
      by (cases "pid = in_child s") (auto simp: init_rel_def handle_wait_def)
  qed (use rel in \<open>auto simp: init_rel_def handle_wait_def\<close>)
qed

section \<open>Properties\<close>

text \<open>
  C39. The init process outlives every generation. Over any interleaving of signals, forks and
  exits, unless \<open>waitpid\<close> itself fails, it exits only when no descendant is left, and its
  status is the one the direct child exited with, zero if the child did not exit normally.
\<close>

theorem init_exits_when_childless:
  assumes "run init_step (init_start child) ls s" and "in_pc s = IExit c"
    and "Ret OtherErrno \<notin> set ls"
  shows "in_live s = 0 \<and> c = fold (child_status child) ls 0"
  using init_rel_run [OF assms(1) refl] assms(2,3) by (auto simp: init_rel_def)

lemma forwarded_by_swap:
  assumes "init_step s DoSwap s'"
  shows "in_forwarded s' = in_forwarded s @ (if in_pending s = 0 then [] else [in_pending s])"
  using assms by cases (simp add: forward_pending_def Let_def)

text \<open>After a signal has interrupted \<open>waitpid\<close>, other signals can only replace it before the swap.\<close>

lemma pending_until_swap:
  assumes "run init_step s ls s'" and "DoSwap \<notin> set ls" and "in_pc s = ISwap" and "in_pending s \<noteq> 0"
  shows "in_pc s' = ISwap \<and> in_forwarded s' = in_forwarded s \<and>
    in_pending s' = last (in_pending s # received_signals ls) \<and> in_pending s' \<noteq> 0"
  using assms
proof (induction rule: run.induct)
  case (run_nil s)
  then show ?case by simp
next
  case (run_snoc s ls s' l s'')
  then have "in_pc s' = ISwap" "in_forwarded s' = in_forwarded s" "in_pending s' \<noteq> 0"
    "in_pending s' = last (in_pending s # received_signals ls)" "l \<noteq> DoSwap" by auto
  with run_snoc.hyps(2) show ?case
    by (auto elim!: init_stepE simp: record_signal_def)
qed

text \<open>
  C40. Signals are forwarded in order. The signals sent to the process group are some of those
  received, in the order of arrival, each at most once. A signal that arrives while \<open>waitpid\<close>
  blocks wakes the loop up, and the very next look at the pending slot forwards one signal: this
  one, or, if others have arrived since, the latest of them in its place.
\<close>

theorem init_forwards_in_order:
  assumes "run init_step (init_start child) ls s"
  shows "subseq (in_forwarded s) (received_signals ls) \<and>
    (\<forall>sig more s'. in_pc s = IBlocked \<and> DoSwap \<notin> set more \<and>
       run init_step s (Sig sig # more @ [DoSwap]) s' \<longrightarrow>
       in_forwarded s' = in_forwarded s @ [last (sig # received_signals more)])"
proof -
  have "subseq (in_forwarded s) (received_signals ls)"
    using init_rel_run [OF assms refl] subseq_prefix by (auto simp: init_rel_def)
  moreover have "in_forwarded s' = in_forwarded s @ [last (sig # received_signals more)]"
    if blocked: "in_pc s = IBlocked" and more: "DoSwap \<notin> set more"
      and r: "run init_step s (Sig sig # more @ [DoSwap]) s'" for sig more s'
  proof -
    from r have "run init_step s ((Sig sig # more) @ [DoSwap]) s'" by simp
    then obtain s2 where r2: "run init_step s (Sig sig # more) s2" and sw: "init_step s2 DoSwap s'"
      by (rule run_snocE)
    obtain s1 where st: "init_step s (Sig sig) s1" and r1: "run init_step s1 more s2"
      using r2 by (rule run_consE)
    from st blocked have s1: "in_pc s1 = ISwap" "in_pending s1 = sig" "sig \<noteq> 0"
      "in_forwarded s1 = in_forwarded s"
      by (auto elim!: init_stepE simp: record_signal_def)
    with pending_until_swap [OF r1 more] forwarded_by_swap [OF sw] show ?thesis by simp
  qed
  ultimately show ?thesis by blast
qed

text \<open>
  Signals can be lost or delayed. Two signals between two looks at the pending slot leave only
  the second; one that arrives after the look and before \<open>waitpid\<close> blocks stays in the slot
  while the loop sleeps, until a descendant exits or another signal comes.
\<close>

lemma init_signal_lost_or_late:
  "\<exists>s. run init_step (init_start child) [Sig 12, Sig 15, DoSwap] s \<and> in_forwarded s = [15]"
  "\<exists>s. run init_step (init_start child) [DoSwap, Sig 15, DoCall] s \<and> in_pc s = IBlocked \<and>
     in_pending s = 15 \<and> in_forwarded s = [] \<and> (\<forall>s'. \<not> init_step s DoSwap s' \<and> \<not> init_step s DoCall s')"
proof -
  let ?a1 = "record_signal 12 (init_start child)" and ?a2 = "record_signal 15 (init_start child)"
  have "record_signal 15 ?a1 = ?a2" by (simp add: record_signal_def)
  then have "init_step (init_start child) (Sig 12) ?a1" "init_step ?a1 (Sig 15) ?a2"
    "init_step ?a2 DoSwap ((forward_pending ?a2)\<lparr>in_pc := ICall\<rparr>)"
    using signal_running [of 12 "init_start child"] signal_running [of 15 ?a1] swap [of ?a2]
    by (simp_all add: init_start_def record_signal_def)
  then have "run init_step (init_start child) [Sig 12, Sig 15, DoSwap] ((forward_pending ?a2)\<lparr>in_pc := ICall\<rparr>)"
    by (blast intro: run_cons run_nil)
  then show "\<exists>s. run init_step (init_start child) [Sig 12, Sig 15, DoSwap] s \<and> in_forwarded s = [15]"
    by (intro exI [of _ "(forward_pending ?a2)\<lparr>in_pc := ICall\<rparr>"]) (simp add: forward_pending_def record_signal_def init_start_def)
next
  let ?b1 = "(forward_pending (init_start child))\<lparr>in_pc := ICall\<rparr>"
  let ?b2 = "record_signal 15 ?b1"
  let ?b3 = "?b2\<lparr>in_pc := IBlocked\<rparr>"
  have "init_step (init_start child) DoSwap ?b1" "init_step ?b1 (Sig 15) ?b2" "init_step ?b2 DoCall ?b3"
    using swap [of "init_start child"] signal_running [of 15 ?b1] call [of ?b2]
    by (simp_all add: init_start_def record_signal_def)
  then have "run init_step (init_start child) [DoSwap, Sig 15, DoCall] ?b3"
    by (blast intro: run_cons run_nil)
  moreover have "\<not> init_step ?b3 DoSwap s' \<and> \<not> init_step ?b3 DoCall s'" for s'
    by (auto elim: init_stepE)
  ultimately show "\<exists>s. run init_step (init_start child) [DoSwap, Sig 15, DoCall] s \<and> in_pc s = IBlocked \<and>
     in_pending s = 15 \<and> in_forwarded s = [] \<and> (\<forall>s'. \<not> init_step s DoSwap s' \<and> \<not> init_step s DoCall s')"
    by (intro exI [of _ ?b3]) (simp add: forward_pending_def record_signal_def init_start_def)
qed

section \<open>A sample run\<close>

text \<open>The program forks the next generation and exits with status 3; the generation ends later.\<close>

definition sample_life :: "init_label list" where
  "sample_life = [DoSwap, DoCall, Fork, Ret (ExitedOk 7 3), DoSwap, DoCall, Ret (ExitedOk 8 0),
     DoSwap, DoCall, Ret NoChild]"

definition life_state :: "init_pc \<Rightarrow> nat \<Rightarrow> int \<Rightarrow> init_state" where
  "life_state pc live st = \<lparr>in_child = 7, in_pending = 0, in_last_status = st, in_pc = pc,
     in_forwarded = [], in_live = live\<rparr>"

lemma life_steps:
  "init_step (life_state ISwap n st) DoSwap (life_state ICall n st)"
  "init_step (life_state ICall n st) DoCall (life_state IBlocked n st)"
  "0 < n \<Longrightarrow> init_step (life_state IBlocked n st) Fork (life_state IBlocked (Suc n) st)"
  "init_step (life_state IBlocked (Suc n) st) (Ret (ExitedOk pid code))
     (life_state ISwap n (if pid = 7 then code else st))"
  "init_step (life_state IBlocked 0 st) (Ret NoChild) (life_state (IExit st) 0 st)"
  using swap [of "life_state ISwap n st"] call [of "life_state ICall n st"]
    forks [of "life_state IBlocked n st"]
    reap [of "life_state IBlocked (Suc n) st" "ExitedOk pid code" pid code]
    childless [of "life_state IBlocked 0 st"]
  by (auto simp: life_state_def forward_pending_def handle_wait_def split: if_splits)

lemma sample_life_run: "run init_step (init_start 7) sample_life (life_state (IExit 3) 0 3)"
proof -
  have start: "init_start 7 = life_state ISwap (Suc 0) 0" by (simp add: init_start_def life_state_def)
  have "init_step (life_state IBlocked (Suc (Suc 0)) 0) (Ret (ExitedOk 7 3)) (life_state ISwap (Suc 0) 3)"
    "init_step (life_state IBlocked (Suc 0) 3) (Ret (ExitedOk 8 0)) (life_state ISwap 0 3)"
    "init_step (life_state IBlocked (Suc 0) 0) Fork (life_state IBlocked (Suc (Suc 0)) 0)"
    using life_steps(4) [of "Suc 0" 0 7 3] life_steps(4) [of 0 3 8 0] life_steps(3) [of "Suc 0" 0] by simp_all
  then show ?thesis
    unfolding start sample_life_def by (blast intro: run_cons run_nil life_steps(1,2,5))
qed

theorem init_exits_when_childless_witness:
  "in_live (life_state (IExit 3) 0 3) = 0 \<and> (3 :: int) = fold (child_status 7) sample_life 0"
  by (rule init_exits_when_childless [OF sample_life_run])
    (simp_all add: life_state_def sample_life_def)

theorem init_forwards_in_order_witness:
  "\<exists>s s'. run init_step (init_start 7) [DoSwap, DoCall] s \<and> run init_step s [Sig 12, Sig 15, DoSwap] s' \<and>
     in_forwarded s' = in_forwarded s @ [15]"
proof -
  let ?s = "life_state IBlocked (Suc 0) 0"
  have "init_start 7 = life_state ISwap (Suc 0) 0" by (simp add: init_start_def life_state_def)
  then have run: "run init_step (init_start 7) [DoSwap, DoCall] ?s"
    by (auto intro: run_cons run_nil life_steps)
  let ?a = "(record_signal 12 ?s)\<lparr>in_pc := ISwap\<rparr>"
  let ?b = "record_signal 15 ?a"
  let ?c = "(forward_pending ?b)\<lparr>in_pc := ICall\<rparr>"
  have "init_step ?s (Sig 12) ?a" "init_step ?a (Sig 15) ?b" "init_step ?b DoSwap ?c"
    using signal_blocked [of 12 ?s] signal_running [of 15 ?a] swap [of ?b]
    by (simp_all add: life_state_def record_signal_def)
  then have talk: "run init_step ?s (Sig 12 # [Sig 15] @ [DoSwap]) ?c"
    by (auto intro: run_cons run_nil)
  have "in_pc ?s = IBlocked" by (simp add: life_state_def)
  moreover have "DoSwap \<notin> set [Sig 15]" by simp
  ultimately have "in_forwarded ?c = in_forwarded ?s @ [last (12 # received_signals [Sig 15])]"
    using init_forwards_in_order [OF run] talk by blast
  with run talk show ?thesis by (intro exI [of _ ?s] exI [of _ ?c]) simp
qed

end
