(* ===== verification/Spec2Isabelle.thy ===== *)
theory Spec2Isabelle
  imports Upgrade Cli Td_Init
begin

text \<open>
  A verification library for traffic-director, an MQTT reverse proxy in Rust that can restart
  itself without disconnecting its clients.

  \<^bold>\<open>The program.\<close> Each client connection is a session that owns one broker connection. The
  session's loop is a two-phase machine: connected, it relays packets and records what is in
  flight; without a broker, it buffers what the client sends and retries. A reconnect replays
  CONNECT, subscriptions, windows and buffer. On SIGUSR2 the server upgrades itself: it either
  drains, or freezes every session, hands the snapshots and client sockets to a new process and
  exits; if that fails the sessions are resumed. \<open>td-init\<close> keeps the container alive across
  generations.

  \<^bold>\<open>The theories\<close>, each with the source it models (under \<open>src/src\<close>):

  \<^item> \<open>Prelude\<close>: machine integers, errors and panics as values, result combinators, vectors.
  \<^item> \<open>Codec\<close>: the packets and the interface of \<open>rmqtt_codec\<close> as a record of functions with
    named laws, framed connections; \<open>codec_for\<close> and \<open>invalid_data\<close> of \<open>session/mod.rs\<close>.
  \<^item> \<open>Keyed_Table\<close>: the contract of an insertion-ordered table, interpreted by the windows and by
    the subscriptions. \<open>Event_System\<close>: runs of labelled step relations and the contract of an
    invariant, interpreted by the session loop, the handoff and the drain tracker.
  \<^item> \<open>Wire\<close>: the effects of a session: what is written to each connection, and scripts saying
    which writes fail and what the broker answers to the reads of a replay.
  \<^item> \<open>Window\<close> (\<open>window.rs\<close>): the QoS windows. They refine a ledger of owed packets as long as no v5
    PUBREC refuses its PUBLISH, keep the order in which exchanges were opened, are resent exactly, survive snapshots, and no \<open>expect\<close> or \<open>unreachable!\<close> is reached.
  \<^item> \<open>Subscriptions\<close>, \<open>Handshake\<close>, \<open>Keepalive\<close>, \<open>Outage\<close> (\<open>session/*.rs\<close>): the re-SUBSCRIBE
    carries exactly the active subscriptions; the CONNECT patch clears one bit; the deadline is
    one and a half keep alives; the outage buffer holds what is owed, in order, within 1 MiB.
  \<^item> \<open>Registry\<close> (\<open>registry.rs\<close>): unique identifiers; a freeze ends for each session in one way.
  \<^item> \<open>Forward\<close> (\<open>session/forward.rs\<close>): replay, freeze, one iteration of the loop per \<open>select!\<close>
    outcome, \<open>run_session\<close> and \<open>adopt_session\<close>. \<open>Replay\<close>: what a replay writes and when it
    succeeds. \<open>Session\<close>: the loop as a step relation, its invariant, absence of panics, and the
    ledger of the whole conversation. \<open>Lifecycle\<close>: relaying, broker loss, what an outage
    lets through, retries, keepalive, freezing, start and migration of a session.
  \<^item> \<open>Migrate\<close> (\<open>migrate.rs\<close>): both ends of the handoff, one step per system call.
  \<^item> \<open>Drain\<close>, \<open>Server\<close> (\<open>server.rs\<close>, \<open>lib.rs\<close>): the drain tracker with its interleavings, the
    accept loops, the main loop with both shed modes.
  \<^item> \<open>Upgrade\<close>: adoption by the child, and sessions over many generations.
  \<^item> \<open>Cli\<close> (\<open>main.rs\<close>) and \<open>Td_Init\<close> (\<open>bin/td-init.rs\<close>): argument parsing; the init loop.
  \<^item> This theory: the properties that span components.

  \<^bold>\<open>Correspondence.\<close> Structs are records, enums datatypes, \<open>u8\<close>, \<open>u16\<close>, \<open>u64\<close> words. A
  function that can fail returns an error or a value; a panic is an error of its own kind, so
  that its absence is a theorem. Asynchronous code is a function of the event that \<open>select!\<close>
  picked, with explicit time; what peers, operating system and other processes do is chosen by
  the environment and universally quantified. Concurrent code (handoff, drain tracker, init) is
  a step relation with one step per system call or atomic access.

  \<^bold>\<open>The ledger.\<close> What is owed is counted over the packets the loop reads from either connection.
  Packets that a replay itself handles are outside it: the answer to the re-SUBSCRIBE, and the
  leftover packets of a dead broker connection, which reach the client without being tracked
  (\<open>leftover_publishes_not_tracked\<close>, \<open>leftover_acks_not_tracked\<close>). PUBREC reason codes are not
  looked at by the program (\<open>refused_publish_is_kept\<close>).

  \<^bold>\<open>Time.\<close> An iteration may pick any event that is possible (\<open>enabled\<close>); the relation does not
  force the deadline branch to be picked when it is due. Statements about what happens in time
  carry the instants as hypotheses.

  \<^bold>\<open>Atomicity.\<close> The main loop of the server takes one step per signal, so its states are those
  at the head of an iteration; the interval of a migrate shed in which the acceptor is stopped
  is within a step.

  \<^bold>\<open>Fuel and bounds.\<close> The only loop whose end depends on code outside the repository is the
  decoding of leftover broker bytes; it has one unit of fuel per byte and one more, enough for a
  decoder that consumes input whenever it yields a packet (\<open>decode_consumes\<close>). Session
  identifiers are unique below \<open>2 ^ 64\<close> sessions, and the drain counter is exact below that.

  \<^bold>\<open>Hypotheses\<close> on code outside the repository: encoded packets carry their type in the fixed
  header (\<open>encode_headers\<close>); subscription options convert to bits and back (\<open>enum_laws\<close>); an
  encoded CONNECT decodes to the same keep alive (\<open>redecodes\<close>); packets that come out of the
  codec can be encoded and carry an identifier above QoS 0 (\<open>event_ok\<close>); JSON parses back
  (\<open>serde_laws\<close>). \<open>sample_rmqtt\<close>, \<open>sample_serde\<close> and \<open>upgrade_serde\<close> are instances that satisfy
  them.

  \<^bold>\<open>Not modelled.\<close> The wire format of packets, TCP, ecdysis, the JSON format, logging, and the
  parsing of socket addresses. A failed write is modelled as having no effect on the peer's log;
  partial writes are not distinguished.

  \<^bold>\<open>What remains for later.\<close> Bounds on the stall a client observes during a migration; the
  interplay of several sessions on one registry over time; the executable evaluation of longer
  conversations.
\<close>

section \<open>Sessions over process generations\<close>

text \<open>
  C1. No unanswered uplink is forgotten, whatever happens to the broker or to the proxy itself.
  Start a session, let it run through any number of broker losses, outages, reconnects and
  rolled-back freezes, and migrate it to a new process any number of times. The session is still
  well-formed. Every QoS 1/2 PUBLISH the loop has read from the client, or the PUBREL that has
  followed it, that no PUBACK or PUBCOMP the loop has read from the broker has answered is, with
  its latest encoding, in the window or the outage buffer, and if the session is in an outage, a
  reconnect that succeeds writes it to the broker, unchanged or, for a PUBLISH, with the DUP bit raised.
  The window toward the client holds exactly the QoS 1/2 PUBLISHes the loop has relayed and the
  client has not answered with a PUBACK or PUBCOMP. Not in this ledger are leftover packets of a
  dead broker connection that a replay delivers, SUBSCRIBE and UNSUBSCRIBE packets, and a PUBREL
  whose PUBLISH was not read by this session.
\<close>

theorem conversation_survives_generations:
  assumes "encode_headers C" and "redecodes C" and "registry_ok r"
    and "run_session C next1 next2 fd connect now tx r w = (Inr (s, r'), w')"
    and "lifetime C s es s'" and "list_all (event_ok C) es"
  shows "session_inv s' \<and>
    covers (fold (conversation C) es (Map.empty, Map.empty)) (s_buffer s') (s_windows s') \<and>
    (\<forall>w1 t1 b s'' w2 i st raw. s_broker s' = None \<and>
       forward_step C t1 (EvWait (Some b)) s' w1 = (Inr (Some s''), w2) \<and>
       fst (fold (conversation C) es (Map.empty, Map.empty)) i = Some (st, raw) \<longrightarrow>
       (\<exists>sent dup r. broker_log w2 = broker_log w1 @ sent \<and> WriteRaw r \<in> set sent \<and>
          resent dup raw r \<and> (dup \<longrightarrow> st = C2BPublishSent)))"
proof -
  from run_session_state [OF assms(2,4,3)] have "session_inv s" "recoverable C (s_hs s)"
    "covers (Map.empty, Map.empty) (s_buffer s) (s_windows s)" by simp_all
  from lifetime_keeps [OF assms(5,1) this(1,2) assms(6) this(3)] have
    "session_inv s'" "covers (fold (conversation C) es (Map.empty, Map.empty)) (s_buffer s') (s_windows s')"
    by simp_all
  with owed_resent show ?thesis by blast
qed

text \<open>One publish, then a migration to the next process.\<close>

theorem conversation_survives_generations_witness:
  "\<exists>s r' w' s'. run_session sample_rmqtt (\<lambda>fr. (fr, NextPacket (Version MQTT3)))
      (\<lambda>fr. (fr, NextPacket sample_hello)) 5 (Some (sample_framed 6 [])) 0 () registry_new
      sample_reconnect = (Inr (s, r'), w') \<and>
    lifetime sample_rmqtt s (take 1 sample_talk) s' \<and>
    map_of (c2b (fold flush_window (ob_entries (s_buffer s')) (s_windows s'))) 7 =
      Some (C2BPublishSent, [48, 0])"
proof -
  have reg: "registry_ok (registry_new :: unit registry)" by (simp add: registry_ok_def registry_new_def)
  obtain s r' w' where start: "run_session sample_rmqtt (\<lambda>fr. (fr, NextPacket (Version MQTT3)))
      (\<lambda>fr. (fr, NextPacket sample_hello)) 5 (Some (sample_framed 6 [])) 0 () registry_new
      sample_reconnect = (Inr (s, r'), w')"
    using sample_run_session by blast
  note st = run_session_state [OF sample_redecodes start reg]
  have ev: "list_all (event_ok sample_rmqtt) (take 1 sample_talk)" "list_all smooth (take 1 sample_talk)"
    "sorted (0 # map fst (take 1 sample_talk))"
    using sample_talk_ok by (simp_all add: sample_talk_def)
  obtain t1 s1 w1 where run1: "run (session_step sample_rmqtt) (0, s, sample_world) (take 1 sample_talk) (t1, s1, w1)"
    using smooth_run [OF sample_headers ev, of s sample_world] st sample_session_connected(2) by blast
  have "session_inv s1 \<and> recoverable sample_rmqtt (s_hs s1)"
    using generation_keeps [OF sample_headers run1] st ev(1) by blast
  then obtain ka where "adopt_session sample_rmqtt 9 (fz_snapshot (own_frozen s1)) True 0 () registry_new =
      (let (i, r') = register () registry_new in Inr (s1\<lparr>s_id := i,
       s_client := \<lparr>fr_io = 9, fr_codec = codec_for sample_rmqtt (hs_version (s_hs s1)),
         fr_read_buf = fr_read_buf (s_client s1)\<rparr>,
       s_broker := None, s_hs := (s_hs s1)\<lparr>hs_keep_alive := ka\<rparr>,
       s_leftover := (case s_broker s1 of Some b \<Rightarrow> fr_read_buf b | None \<Rightarrow> []),
       s_backoff := BROKER_RETRY_INITIAL, s_step := Connect, s_last_activity := 0\<rparr>, r'))"
    using adopt_frozen [of s1 sample_rmqtt 9 0 "()" registry_new] by blast
  then obtain s2 r2 where "adopt_session sample_rmqtt 9 (fz_snapshot (own_frozen s1)) True 0 () registry_new =
      Inr (s2, r2)" by (auto split: prod.splits)
  then have life: "lifetime sample_rmqtt s (take 1 sample_talk @ []) s2"
    by (rule next_generation [OF one_generation [OF run1] _ run_nil])
  from conversation_survives_generations [OF sample_headers sample_redecodes reg start life] ev(1)
  have "covers (fold (conversation sample_rmqtt) (take 1 sample_talk) (Map.empty, Map.empty))
      (s_buffer s2) (s_windows s2)" by simp
  then have "map_of (c2b (fold flush_window (ob_entries (s_buffer s2)) (s_windows s2))) 7 =
      Some (C2BPublishSent, [48, 0])"
    by (auto simp: covers_def sample_talk_def conversation_def sample_publish_def view_of_def
        publish_view_def sample_encoding packet_type_def map_le_def)
  with start life show ?thesis by auto
qed

section \<open>Upgrades\<close>

text \<open>
  C2. A failed upgrade is invisible to every client. When an upgrade in migrate mode fails, the
  server goes on accepting; exactly the sessions that had answered the freeze are sent a resume
  message, once each, and each of them continues in the state it was frozen in, with nothing
  written to either of its connections.
\<close>

theorem failed_upgrade_transparent:
  assumes "live_ok live" and "distinct (map fst (ue_senders env))"
    and "ue_answers env = session_answers live responsive"
    and "ue_joined env" and "\<not> ue_upgraded env" and "sv_mode s = MigrateMode"
  shows "\<exists>s' msgs. on_signal SigUsr2 env s = (Inr Again, s') \<and> sv_accepting s' \<and>
    sv_resumed s' = sv_resumed s @ msgs \<and> sv_dropped s' = sv_dropped s \<and> distinct (map fst msgs) \<and>
    map fst msgs = map s_id (responding live responsive (ue_senders env)) \<and>
    (\<forall>m \<in> set msgs. \<exists>q. live (fst m) = Some q \<and>
      forward_step C now (EvFreeze (ResumedWith (snd m))) q w = (Inr (Some q), w))"
proof -
  let ?qs = "responding live responsive (ue_senders env)"
  let ?msgs = "map (\<lambda>q. (s_id q, own_frozen q)) ?qs"
  have hon: "honest (ue_answers env)" using session_answers_honest [OF assms(1)] assms(3) by simp
  have fr: "frozen_of env = map own_frozen ?qs" using frozen_responding [OF assms(1-3)] .
  have "distinct (map fz_id (frozen_of env))"
    using batch_eq(2) [OF hon assms(2)] by (simp add: frozen_of_def)
  then have d: "distinct (map fst ?msgs)" by (simp add: fr comp_def)
  have "on_signal SigUsr2 env s = (Inr Again, s\<lparr>sv_accepting := True, sv_resumed := sv_resumed s @ ?msgs\<rparr>)"
    using shed_migrate_eq [OF hon assms(2) refl, of s] assms(4-6)
    by (simp add: on_signal_def fr comp_def)
  moreover have "\<forall>m \<in> set ?msgs. \<exists>q. live (fst m) = Some q \<and>
      forward_step C now (EvFreeze (ResumedWith (snd m))) q w = (Inr (Some q), w)"
    using responding_live [OF assms(1), of _ responsive "ue_senders env"] freeze_rolled_back [of C now _ w]
    by fastforce
  ultimately show ?thesis using d
    by (intro exI [of _ "s\<lparr>sv_accepting := True, sv_resumed := sv_resumed s @ ?msgs\<rparr>"] exI [of _ ?msgs])
      (simp add: comp_def)
qed

definition sample_live :: "u64 \<Rightarrow> unit session option" where
  "sample_live = [3 \<mapsto> sample_session]"

definition sample_upgrade :: "bool \<Rightarrow> nat \<times> unit res \<Rightarrow> unit upgrade_env" where
  "sample_upgrade up h = \<lparr>ue_joined = True, ue_upgraded = up, ue_senders = [(3, ())],
     ue_answers = session_answers sample_live (\<lambda>i. True), ue_handoff = h\<rparr>"

lemma sample_live_ok: "live_ok sample_live"
  by (auto simp: live_ok_def sample_live_def sample_session_def split: if_splits)

lemma sample_responding: "responding sample_live (\<lambda>i. True) [(3, ())] = [sample_session]"
  by (simp add: responding_def sample_live_def List.map_filter_simps)

theorem failed_upgrade_transparent_witness:
  "\<exists>s' msgs. on_signal SigUsr2 (sample_upgrade False (0, Inr ())) sample_server = (Inr Again, s') \<and>
    sv_resumed s' = msgs \<and> map fst msgs = [3] \<and> sv_dropped s' = []"
proof -
  let ?env = "sample_upgrade False (0, Inr ())"
  have "distinct (map fst (ue_senders ?env))" "ue_answers ?env = session_answers sample_live (\<lambda>i. True)"
    "ue_joined ?env" "\<not> ue_upgraded ?env" "sv_mode sample_server = MigrateMode"
    by (simp_all add: sample_upgrade_def sample_server_def)
  from failed_upgrade_transparent [OF sample_live_ok this, of sample_rmqtt 0 sample_world]
  show ?thesis
    by (auto simp: sample_upgrade_def sample_responding sample_server_def)
      (simp add: sample_session_def)
qed

text \<open>
  C3. A completed upgrade moves every session that answered. If the child's receive function
  succeeds, then so has the parent's send function; the parent resumes none of the frozen
  sessions and returns, and the child adopts all of them, in order, each with its windows,
  buffer, subscriptions, protocol version, CONNECT, client descriptor and unread client bytes,
  and with the unread bytes of its broker connection, if it had one, as leftover.
\<close>

theorem completed_upgrade_moves_sessions:
  assumes "live_ok live" and "distinct (map fst (ue_senders env))"
    and "ue_answers env = session_answers live responsive"
    and "\<forall>i q. live i = Some q \<longrightarrow> session_inv q \<and> recoverable C (s_hs q)"
    and "serde_laws J" and "list_all (fits J) (frozen_of env)"
    and "run (handoff_step J) (handoff_start (frozen_of env)) ls h"
    and "ho_child h = CDone (Inr got)"
    and "ue_joined env" and "ue_upgraded env" and "ho_parent h = PDone (snd (ue_handoff env))"
    and "sv_mode s = MigrateMode" and "\<forall>fd. sock_ok fd"
  shows "\<exists>s' ss' r'. on_signal SigUsr2 env s = (Inr ReturnOk, s') \<and>
    sv_resumed s' = sv_resumed s \<and> sv_dropped s' = sv_dropped s @ map fz_id (frozen_of env) \<and>
    adopt_migrated C sock_ok now tx (Inr got) r = (ss', r') \<and>
    list_all2 (carries_on C) (responding live responsive (ue_senders env)) ss'"
proof -
  let ?qs = "responding live responsive (ue_senders env)"
  have hon: "honest (ue_answers env)" using session_answers_honest [OF assms(1)] assms(3) by simp
  have fr: "frozen_of env = map own_frozen ?qs" using frozen_responding [OF assms(1-3)] .
  have inv: "handoff_inv J (frozen_of env) h" using handoff_reachable_inv [OF assms(5-7)] .
  then have fin: "ho_parent h = PDone (Inr ())" and rec: "got = map handed (frozen_of env)"
    using assms(8) by (auto simp: handoff_inv_def split: parent_pc.splits sum.splits)
  then have "snd (ue_handoff env) = Inr ()" using assms(11) by simp
  then obtain sent where "ue_handoff env = (sent, Inr ())" by (cases "ue_handoff env") simp
  then have "on_signal SigUsr2 env s = (Inr ReturnOk, s\<lparr>sv_accepting := False, sv_quit := True,
      sv_dropped := sv_dropped s @ map fz_id (frozen_of env)\<rparr>)"
    using shed_migrate_eq [OF hon assms(2) refl, of s] assms(9,10,12) by (simp add: on_signal_def)
  moreover have "session_inv q \<and> recoverable C (s_hs q)" if "q \<in> set ?qs" for q
    using responding_live [OF assms(1) that] assms(4) by blast
  then obtain ss' r' where "adopt_migrated C sock_ok now tx (Inr got) r = (ss', r')"
    "list_all2 (carries_on C) ?qs ss'"
    using adopt_all [of ?qs C sock_ok now tx "[]" r] assms(13)
    by (auto simp: adopt_migrated_def rec fr comp_def)
  ultimately show ?thesis by simp
qed

definition upgrade_serde :: serde where
  "upgrade_serde = \<lparr>
     to_vec = (\<lambda>p. if p = fz_snapshot (own_frozen sample_session) then Inr [123] else Inl ''unsupported''),
     from_slice = (\<lambda>p. if p = [123] then Inr (fz_snapshot (own_frozen sample_session)) else Inl ''syntax'')\<rparr>"

lemma upgrade_serde_laws: "serde_laws upgrade_serde"
  by (auto simp: serde_laws_def upgrade_serde_def END_MARKER_def split: if_splits)

lemma sample_recoverable: "recoverable sample_rmqtt sample_hs"
  unfolding recoverable_def
  by (rule exI [of _ "word_cat (1 :: u8) (44 :: u8)"])
    (simp add: from_snapshot_version_def version_byte_def sample_hs_def sample_rmqtt_def
      sample_decode_def codec_for_def keep_alive_of_def nth_Cons')

theorem completed_upgrade_moves_sessions_witness:
  "\<exists>s' q r'. on_signal SigUsr2 (sample_upgrade True (1, Inr ())) sample_server = (Inr ReturnOk, s') \<and>
    sv_resumed s' = [] \<and> sv_dropped s' = [3] \<and>
    adopt_migrated sample_rmqtt (\<lambda>fd. True) 0 () (Inr [handed (own_frozen sample_session)]) registry_new
      = ([q], r') \<and> carries_on sample_rmqtt sample_session q"
proof -
  define env where "env = sample_upgrade True (1, Inr ())"
  let ?fs = "[own_frozen sample_session]"
  have envs: "distinct (map fst (ue_senders env))"
    "ue_answers env = session_answers sample_live (\<lambda>i. True)"
    by (simp_all add: env_def sample_upgrade_def)
  have fr: "frozen_of env = ?fs"
    using frozen_responding [OF sample_live_ok envs] by (simp add: env_def sample_upgrade_def sample_responding)
  have live: "\<forall>i q. sample_live i = Some q \<longrightarrow> session_inv q \<and> recoverable sample_rmqtt (s_hs q)"
    using sample_session_inv sample_recoverable
    by (auto simp: sample_live_def sample_session_def split: if_splits)
  have fits: "list_all (fits upgrade_serde) (frozen_of env)"
    unfolding fr by (simp add: fits_def upgrade_serde_def)
  have start: "between [] ?fs = handoff_start ?fs"
    by (simp add: between_def handoff_start_def)
  have run: "run (handoff_step upgrade_serde) (handoff_start (frozen_of env))
      (smooth_schedule 1) (completed ?fs)"
    using smooth_handoff [OF upgrade_serde_laws, of ?fs "[]"] fits by (simp add: start [symmetric] fr)
  have fin: "ho_child (completed ?fs) = CDone (Inr (map handed ?fs))"
    "ho_parent (completed ?fs) = PDone (snd (ue_handoff env))"
    "ue_joined env" "ue_upgraded env" "sv_mode sample_server = MigrateMode"
    by (simp_all add: completed_def env_def sample_upgrade_def sample_server_def)
  from completed_upgrade_moves_sessions [OF sample_live_ok envs live upgrade_serde_laws fits run fin(1,3,4,2,5),
      of "\<lambda>fd. True" 0 "()" registry_new]
  show ?thesis unfolding fr
    by (auto simp: env_def sample_upgrade_def sample_responding sample_server_def list_all2_Cons1)
      (simp add: sample_session_def)
qed

text \<open>
  C4. No session is ever served by two generations. However an upgrade goes, a frozen session
  is resumed by the parent only if the child adopts none; but when the handoff fails after some
  sessions, those are dropped by the parent and, the child's receive function being bound to
  fail, adopted by nobody.
\<close>

theorem upgrade_never_duplicates:
  assumes "honest (ue_answers env)" and "distinct (map fst (ue_senders env))"
    and "serde_laws J" and "list_all (fits J) (frozen_of env)"
    and "run (handoff_step J) (handoff_start (frozen_of env)) ls h"
    and "ho_parent h = PDone res" and "ue_handoff env = (ho_sent h, res)"
    and "run (handoff_step J) h ls' h'" and "ho_child h' = CDone got"
    and "ue_joined env" and "ue_upgraded env" and "sv_mode s = MigrateMode"
  shows "\<exists>fl s'. on_signal SigUsr2 env s = (Inr fl, s') \<and>
    (case res of
       Inr u \<Rightarrow> sv_resumed s' = sv_resumed s
     | Inl e \<Rightarrow> fst (adopt_migrated C sock_ok now tx got r) = [] \<and>
         sv_resumed s' = sv_resumed s @ map (\<lambda>f. (fz_id f, f)) (drop (ho_sent h) (frozen_of env)) \<and>
         sv_dropped s' = sv_dropped s @ map fz_id (take (ho_sent h) (frozen_of env)))"
proof -
  have st: "on_signal SigUsr2 env s = shed_migrate env s" using assms(12) by (simp add: on_signal_def)
  note mig = shed_migrate_eq [OF assms(1,2) refl, of s]
  show ?thesis
  proof (cases res)
    case (Inl e)
    have "ho_parent h' = PDone (Inl e)" using done_stable [OF assms(8,6)] Inl by simp
    moreover have "handoff_inv J (frozen_of env) h'"
      using handoff_reachable_inv [OF assms(3,4) run_append [OF assms(5,8)]] .
    ultimately obtain e' where "got = Inl e'"
      using assms(9) by (cases got) (auto simp: handoff_inv_def)
    with Inl mig assms(7,10,11) show ?thesis by (simp add: st adopt_migrated_def)
  next
    case (Inr u)
    with mig assms(7,10,11) show ?thesis by (simp add: st)
  qed
qed

definition broken_upgrade :: "unit upgrade_env" where
  "broken_upgrade = \<lparr>ue_joined = True, ue_upgraded = True, ue_senders = [(0, ()), (1, ())],
     ue_answers = (\<lambda>i. if i = 0 then Replied (sample_batch ! 0) else if i = 1 then Replied (sample_batch ! 1)
       else SendFailed),
     ue_handoff = (1, Inl (IoError OtherIo ''sendmsg''))\<rparr>"

theorem upgrade_never_duplicates_witness:
  "\<exists>fl s'. on_signal SigUsr2 broken_upgrade sample_server = (Inr fl, s') \<and>
    sv_resumed s' = [(1, sample_batch ! 1)] \<and> sv_dropped s' = [0] \<and>
    fst (adopt_migrated sample_rmqtt (\<lambda>fd. True) 0 () (Inl (IoError OtherIo ''recvmsg'')) registry_new) = []"
proof -
  have hon: "honest (ue_answers broken_upgrade)" "distinct (map fst (ue_senders broken_upgrade))"
    by (auto simp: honest_def broken_upgrade_def sample_batch_def split: if_splits)
  have fr: "frozen_of broken_upgrade = sample_batch"
    by (simp add: frozen_of_def freeze_all_def freeze_one_def broken_upgrade_def sample_batch_def)
  obtain ls where run: "run (handoff_step sample_serde) (handoff_start (frozen_of broken_upgrade)) ls sample_broken"
    using sample_broken_run fr by auto
  have fits: "list_all (fits sample_serde) (frozen_of broken_upgrade)" using sample_batch_fits fr by simp
  let ?h' = "sample_broken\<lparr>ho_child := CDone (Inl (IoError OtherIo ''recvmsg''))\<rparr>"
  have "handoff_step sample_serde sample_broken (Child, Failing) ?h'"
    by (rule child_moves) (simp add: recv_sessions_step_def sample_broken_def between_def)
  then have run': "run (handoff_step sample_serde) sample_broken [(Child, Failing)] ?h'"
    by (blast intro: run_cons run_nil)
  have res: "ho_parent sample_broken = PDone (Inl (IoError OtherIo ''sendmsg''))"
    "ue_handoff broken_upgrade = (ho_sent sample_broken, Inl (IoError OtherIo ''sendmsg''))"
    "ho_child ?h' = CDone (Inl (IoError OtherIo ''recvmsg''))" "ue_joined broken_upgrade"
    "ue_upgraded broken_upgrade" "sv_mode sample_server = MigrateMode" "ho_sent sample_broken = 1"
    by (simp_all add: sample_broken_def between_def sample_batch_def broken_upgrade_def sample_server_def)
  from upgrade_never_duplicates [OF hon sample_serde_laws fits run res(1,2) run' res(3-6),
      of sample_rmqtt "\<lambda>fd. True" 0 "()" registry_new]
  show ?thesis by (auto simp: fr res(7) sample_batch_def sample_server_def)
qed

end
